theory Spec2Isabelle
  imports Main "HOL-Library.AList"
begin

section \<open>Python values shared by the models\<close>

text \<open>
  Exceptions are values: a function of the source that can raise returns
  \<open>py_error + 'a\<close>, with \<open>Inl\<close> for the exception.  \<open>Aliased\<close> is not an exception of
  Python: it marks the one place where a walk would make two nodes share an object, which
  a tree cannot express, and the model of that walk ends there.  Calls to the process-wide
  logger are collected, in order, as a list of \<open>log_entry\<close>.
\<close>

datatype py_error = AttributeError | TypeError | ValueError | KeyError | Aliased

datatype log_entry = Debug string | Info string | Warning string | Error string

text \<open>A Python string in single quotes, as the f-strings of the source print identifiers.\<close>

definition quoted :: "string \<Rightarrow> string" where
  "quoted s = CHR 0x27 # s @ [CHR 0x27]"

text \<open>\<open>sep.join(xs)\<close> on a list of strings.\<close>

fun py_join :: "string \<Rightarrow> string list \<Rightarrow> string" where
  "py_join sep [] = []"
| "py_join sep [x] = x"
| "py_join sep (x # y # ys) = x @ sep @ py_join sep (y # ys)"

text \<open>Decimal rendering of a count, as an f-string prints an \<open>int\<close>.\<close>

definition digit_char :: "nat \<Rightarrow> char" where
  "digit_char d = ''0123456789'' ! d"

fun show_nat :: "nat \<Rightarrow> string" where
  "show_nat n = (if n < 10 then [digit_char n] else show_nat (n div 10) @ [digit_char (n mod 10)])"

declare show_nat.simps [simp del]

text \<open>Truthiness of an optional string: \<open>None\<close> and \<open>""\<close> are false.\<close>

fun truthy :: "string option \<Rightarrow> bool" where
  "truthy None = False"
| "truthy (Some s) = (s \<noteq> [])"

text \<open>
  \<open>d.update(new)\<close> on a dict kept as an association list in insertion order: an existing
  key keeps its place and takes the new value, a new key goes to the end.
\<close>

definition dict_update :: "('k \<times> 'v) list \<Rightarrow> ('k \<times> 'v) list \<Rightarrow> ('k \<times> 'v) list" where
  "dict_update d new = fold (\<lambda>kv. AList.update (fst kv) (snd kv)) new d"

section \<open>The directed graph of \<open>networkx\<close>\<close>

text \<open>
  \<open>nx.DiGraph\<close> keeps one attribute dict per node and one per ordered pair of nodes: a
  second \<open>add_edge(u, v, ...)\<close> does not add a parallel edge, it updates the attributes of
  the edge that is there.  An attribute value is a string or \<open>None\<close>.
\<close>

type_synonym attrs = "(string \<times> string option) list"

record graph =
  g_node :: "(string \<times> attrs) list"
  g_adj :: "((string \<times> string) \<times> attrs) list"

definition empty_graph :: graph where
  "empty_graph = \<lparr>g_node = [], g_adj = []\<rparr>"

definition has_node :: "graph \<Rightarrow> string \<Rightarrow> bool" where
  "has_node G n = (map_of (g_node G) n \<noteq> None)"

definition add_node :: "graph \<Rightarrow> string \<Rightarrow> attrs \<Rightarrow> graph" where
  "add_node G n a =
     G\<lparr>g_node := AList.update n
          (dict_update (case map_of (g_node G) n of None \<Rightarrow> [] | Some old \<Rightarrow> old) a)
          (g_node G)\<rparr>"

definition touch_node :: "graph \<Rightarrow> string \<Rightarrow> graph" where
  "touch_node G n = (if has_node G n then G else G\<lparr>g_node := g_node G @ [(n, [])]\<rparr>)"

definition add_edge :: "graph \<Rightarrow> string \<Rightarrow> string \<Rightarrow> attrs \<Rightarrow> graph" where
  "add_edge G u v a =
     (let G' = touch_node (touch_node G u) v
      in G'\<lparr>g_adj := AList.update (u, v)
           (dict_update (case map_of (g_adj G') (u, v) of None \<Rightarrow> [] | Some old \<Rightarrow> old) a)
           (g_adj G')\<rparr>)"

definition node_attr :: "graph \<Rightarrow> string \<Rightarrow> string \<Rightarrow> string option" where
  "node_attr G n k =
     (case map_of (g_node G) n of None \<Rightarrow> None
      | Some a \<Rightarrow> (case map_of a k of None \<Rightarrow> None | Some v \<Rightarrow> v))"

definition node_type :: "graph \<Rightarrow> string \<Rightarrow> string option" where
  "node_type G n = node_attr G n ''type''"

definition edge_attr :: "graph \<Rightarrow> string \<Rightarrow> string \<Rightarrow> string \<Rightarrow> string option" where
  "edge_attr G u v k =
     (case map_of (g_adj G) (u, v) of None \<Rightarrow> None
      | Some a \<Rightarrow> (case map_of a k of None \<Rightarrow> None | Some x \<Rightarrow> x))"

definition has_edge :: "graph \<Rightarrow> string \<Rightarrow> string \<Rightarrow> bool" where
  "has_edge G u v = (map_of (g_adj G) (u, v) \<noteq> None)"

definition edge_type :: "graph \<Rightarrow> string \<Rightarrow> string \<Rightarrow> string option" where
  "edge_type G u v = edge_attr G u v ''type''"

section \<open>The records of one file, as \<open>build_graph\<close> reads them\<close>

text \<open>
  \<open>build_graph\<close> is modelled on the records that \<open>extract_features_from_ast\<close> builds from a
  tree whose names are strings.  Each dict of the source is an association list in
  insertion order.  An entity's \<open>kind\<close> is one of the four strings the extractor writes;
  \<open>description\<close> and \<open>summary\<close> are the optional keys of the enrichment stage.
\<close>

datatype entity_kind = Class | TSInterface | Function | Variable

fun kind_str :: "entity_kind \<Rightarrow> string" where
  "kind_str Class = ''Class''"
| "kind_str TSInterface = ''TSInterface''"
| "kind_str Function = ''Function''"
| "kind_str Variable = ''Variable''"

record entity =
  e_name :: string
  e_kind :: entity_kind
  e_description :: "string option"

record method_rec =
  m_name :: string
  m_kind :: string
  m_entity_id :: "string option"
  m_summary :: "string option"

record import_rec =
  i_source :: string
  i_specifiers :: "string list"
  i_is_external :: bool

record dependency =
  d_name :: string
  d_type :: string

record call_rec =
  c_base_expression :: "string option"
  c_called_method_name :: string
  c_is_await :: bool

record file_record =
  fr_file_path :: string
  fr_imports :: "import_rec list"
  fr_entities :: "(string \<times> entity) list"
  fr_methods :: "(string \<times> method_rec) list"
  fr_calls :: "(string \<times> call_rec list) list"
  fr_dependencies :: "(string \<times> dependency list) list"

section \<open>\<open>resolve_internal_path\<close>\<close>

text \<open>
  The path arithmetic of \<open>pathlib\<close> depends on the working directory and the file
  system, so it is a parameter of the model.  \<open>path_name p\<close> is \<open>Path(p).name\<close>.
  \<open>path_probes file_path source\<close> is the list \<open>potential_files\<close> in order, or \<open>None\<close> when
  building it raises; each candidate is \<open>Inside r\<close> when it lies under the working
  directory, with \<open>r\<close> its relative path, and otherwise \<open>Outside a s\<close> with \<open>a\<close> the absolute
  path and \<open>s\<close> the string \<open>simple_rel\<close>, \<open>None\<close> when computing it raises \<open>ValueError\<close>.
\<close>

datatype probe = Inside string | Outside string "string option"

record env =
  path_name :: "string \<Rightarrow> string"
  path_probes :: "string \<Rightarrow> string \<Rightarrow> probe list option"

fun first_known :: "probe list \<Rightarrow> string list \<Rightarrow> py_error + string option" where
  "first_known [] ids = Inr None"
| "first_known (Inside r # ps) ids = (if r \<in> set ids then Inr (Some r) else first_known ps ids)"
| "first_known (Outside a s # ps) ids =
     (if a \<in> set ids then Inr (Some a)
      else case s of
        None \<Rightarrow> Inl ValueError
      | Some q \<Rightarrow> if q \<in> set ids then Inr (Some q) else first_known ps ids)"

definition resolve_internal_path ::
  "env \<Rightarrow> string \<Rightarrow> string \<Rightarrow> string list \<Rightarrow> py_error + (string option \<times> log_entry list)" where
  "resolve_internal_path ev current_file_path_str import_source all_file_ids =
     (case path_probes ev current_file_path_str import_source of
        None \<Rightarrow> Inl ValueError
      | Some potential_files \<Rightarrow>
          (case first_known potential_files all_file_ids of
             Inl e \<Rightarrow> Inl e
           | Inr (Some p) \<Rightarrow> Inr (Some p, [])
           | Inr None \<Rightarrow>
               Inr (None, [Debug (''Could not resolve internal import '' @ quoted import_source
                     @ '' from '' @ quoted current_file_path_str @ '' to a known file ID.'')])))"

section \<open>\<open>build_graph\<close>\<close>

subsection \<open>Nodes\<close>

definition file_attrs :: "env \<Rightarrow> file_record \<Rightarrow> attrs" where
  "file_attrs ev d =
     [(''type'', Some ''File''), (''path'', Some (fr_file_path d)),
      (''label'', Some (path_name ev (fr_file_path d)))]"

definition entity_title :: "string \<Rightarrow> entity \<Rightarrow> string" where
  "entity_title file_id e =
     ''Kind: '' @ kind_str (e_kind e) @ [CHR 0x0A] @ ''File: '' @ file_id
     @ (case e_description e of None \<Rightarrow> [] | Some dsc \<Rightarrow> [CHR 0x0A] @ ''Desc: '' @ dsc)"

definition entity_attrs :: "string \<Rightarrow> entity \<Rightarrow> attrs" where
  "entity_attrs file_id e =
     [(''type'', Some (kind_str (e_kind e))), (''name'', Some (e_name e)),
      (''file_id'', Some file_id), (''label'', Some (e_name e)),
      (''title'', Some (entity_title file_id e)), (''description'', e_description e)]"

definition method_title :: "string \<Rightarrow> method_rec \<Rightarrow> string" where
  "method_title file_id m =
     ''Method: '' @ m_name m @ [CHR 0x0A] @ ''Kind: '' @ m_kind m @ [CHR 0x0A]
     @ ''Entity: '' @ (case m_entity_id m of None \<Rightarrow> ''N/A''
                        | Some eid \<Rightarrow> if eid = [] then ''N/A'' else eid)
     @ [CHR 0x0A] @ ''File: '' @ file_id
     @ (case m_summary m of None \<Rightarrow> [] | Some s \<Rightarrow> [CHR 0x0A] @ ''Summary: '' @ s)"

definition method_attrs :: "string \<Rightarrow> method_rec \<Rightarrow> attrs" where
  "method_attrs file_id m =
     [(''type'', Some ''Method''), (''name'', Some (m_name m)),
      (''entity_id'', m_entity_id m), (''file_id'', Some file_id),
      (''label'', Some (m_name m @ ''()'')), (''title'', Some (method_title file_id m)),
      (''summary'', m_summary m)]"

definition add_entity :: "string \<Rightarrow> string \<times> entity \<Rightarrow> graph \<Rightarrow> graph" where
  "add_entity file_id ee G =
     add_edge (add_node G (fst ee) (entity_attrs file_id (snd ee))) file_id (fst ee)
       [(''type'', Some ''CONTAINS'')]"

definition has_node_opt :: "graph \<Rightarrow> string option \<Rightarrow> bool" where
  "has_node_opt G x = (case x of None \<Rightarrow> False | Some n \<Rightarrow> has_node G n)"

definition add_method :: "string \<Rightarrow> string \<times> method_rec \<Rightarrow> graph \<Rightarrow> graph" where
  "add_method file_id mm G =
     (let method_id = fst mm; entity_id = m_entity_id (snd mm);
          G1 = add_node G method_id (method_attrs file_id (snd mm))
      in if truthy entity_id \<and> has_node_opt G1 entity_id
         then (case entity_id of None \<Rightarrow> G1
               | Some eid \<Rightarrow> add_edge G1 eid method_id [(''type'', Some ''HAS_METHOD'')])
         else if file_id \<noteq> []
         then add_edge G1 file_id method_id [(''type'', Some ''CONTAINS_FUNC'')]
         else G1)"

definition add_file_nodes :: "env \<Rightarrow> string \<times> file_record \<Rightarrow> graph \<Rightarrow> graph" where
  "add_file_nodes ev fd G =
     fold (add_method (fst fd)) (fr_methods (snd fd))
       (fold (add_entity (fst fd)) (fr_entities (snd fd))
          (add_node G (fst fd) (file_attrs ev (snd fd))))"

subsection \<open>Edges\<close>

record bstate =
  st_graph :: graph
  st_processed_external_imports :: "string list"
  st_log :: "log_entry list"

definition log_debug :: "string \<Rightarrow> bstate \<Rightarrow> bstate" where
  "log_debug msg st = st\<lparr>st_log := st_log st @ [Debug msg]\<rparr>"

definition process_import ::
  "env \<Rightarrow> string list \<Rightarrow> string \<Rightarrow> file_record \<Rightarrow> import_rec \<Rightarrow> bstate \<Rightarrow> py_error + bstate" where
  "process_import ev all_file_ids file_id d imp st =
     (let source = i_source imp in
      if i_is_external imp then
        (let st1 = (if source \<in> set (st_processed_external_imports st) then st
                    else st\<lparr>st_graph := add_node (st_graph st) source
                                 [(''type'', Some ''External''), (''label'', Some source),
                                  (''title'', Some (''External Library: '' @ source))],
                            st_processed_external_imports :=
                              source # st_processed_external_imports st\<rparr>)
         in Inr (st1\<lparr>st_graph := add_edge (st_graph st1) file_id source
                       [(''type'', Some ''IMPORTS_EXT''),
                        (''label'', Some (py_join '', '' (i_specifiers imp)))]\<rparr>))
      else
        (case resolve_internal_path ev (fr_file_path d) source all_file_ids of
           Inl e \<Rightarrow> Inl e
         | Inr (target_file_id, lg) \<Rightarrow>
             (let st1 = st\<lparr>st_log := st_log st @ lg\<rparr> in
              if truthy target_file_id \<and> has_node_opt (st_graph st1) target_file_id
              then (case target_file_id of None \<Rightarrow> Inr st1
                    | Some t \<Rightarrow> Inr (st1\<lparr>st_graph := add_edge (st_graph st1) file_id t
                         [(''type'', Some ''IMPORTS_INT''),
                          (''label'', Some (path_name ev source))]\<rparr>))
              else Inr (log_debug (''Import edge skipped: Cannot resolve internal import ''
                         @ quoted source @ '' from '' @ quoted file_id) st1))))"

definition find_entity :: "(string \<times> entity) list \<Rightarrow> string \<Rightarrow> string option" where
  "find_entity es n = map_option fst (find (\<lambda>p. e_name (snd p) = n) es)"

definition all_entities :: "(string \<times> file_record) list \<Rightarrow> (string \<times> entity) list" where
  "all_entities extracted_data = concat (map (\<lambda>fd. fr_entities (snd fd)) extracted_data)"

definition resolve_dependency ::
  "(string \<times> file_record) list \<Rightarrow> file_record \<Rightarrow> string \<Rightarrow> string option" where
  "resolve_dependency extracted_data d dep_type_name =
     (let target_entity_id = find_entity (fr_entities d) dep_type_name in
      if \<not> truthy target_entity_id
      then find_entity (all_entities extracted_data) dep_type_name
      else target_entity_id)"

definition process_dep ::
  "(string \<times> file_record) list \<Rightarrow> file_record \<Rightarrow> string \<Rightarrow> dependency \<Rightarrow> bstate \<Rightarrow> bstate" where
  "process_dep extracted_data d entity_id dep st =
     (let target_entity_id = resolve_dependency extracted_data d (d_type dep) in
      if truthy target_entity_id \<and> has_node_opt (st_graph st) target_entity_id
      then (case target_entity_id of None \<Rightarrow> st
            | Some t \<Rightarrow> st\<lparr>st_graph := add_edge (st_graph st) entity_id t
                 [(''type'', Some ''INJECTS''), (''label'', Some (''as '' @ d_name dep))]\<rparr>)
      else log_debug (''Injection edge skipped: Cannot resolve dependency type ''
             @ quoted (d_type dep) @ '' for '' @ quoted entity_id) st)"

definition process_deps ::
  "(string \<times> file_record) list \<Rightarrow> file_record \<Rightarrow> string \<times> dependency list \<Rightarrow> bstate \<Rightarrow> bstate" where
  "process_deps extracted_data d ed st =
     (if \<not> has_node (st_graph st) (fst ed) then st
      else fold (process_dep extracted_data d (fst ed)) (snd ed) st)"

definition caller_deps :: "file_record \<Rightarrow> string option \<Rightarrow> dependency list" where
  "caller_deps d caller_entity_id =
     (case caller_entity_id of None \<Rightarrow> []
      | Some ce \<Rightarrow> (case map_of (fr_dependencies d) ce of None \<Rightarrow> [] | Some ds \<Rightarrow> ds))"

definition call_target ::
  "(string \<times> file_record) list \<Rightarrow> file_record \<Rightarrow> string option \<Rightarrow> call_rec \<Rightarrow> string option" where
  "call_target extracted_data d caller_entity_id call =
     (let base = c_base_expression call; target_method_name = c_called_method_name call in
      if base = Some ''this'' \<and> truthy caller_entity_id
      then (case caller_entity_id of None \<Rightarrow> None
            | Some ce \<Rightarrow> Some (ce @ ''::'' @ target_method_name))
      else if truthy base
      then (case find (\<lambda>dep. Some (d_name dep) = base) (caller_deps d caller_entity_id) of
              None \<Rightarrow> None
            | Some dep_match \<Rightarrow>
                (let dep_entity_id = find_entity (all_entities extracted_data) (d_type dep_match)
                 in if truthy dep_entity_id
                    then (case dep_entity_id of None \<Rightarrow> None
                          | Some de \<Rightarrow> Some (de @ ''::'' @ target_method_name))
                    else None))
      else None)"

definition process_call ::
  "(string \<times> file_record) list \<Rightarrow> file_record \<Rightarrow> string \<Rightarrow> string option \<Rightarrow> call_rec
     \<Rightarrow> bstate \<Rightarrow> bstate" where
  "process_call extracted_data d method_id caller_entity_id call st =
     (let base = c_base_expression call; target_method_name = c_called_method_name call;
          target_method_id = call_target extracted_data d caller_entity_id call
      in if truthy target_method_id \<and> has_node_opt (st_graph st) target_method_id
         then (case target_method_id of None \<Rightarrow> st
               | Some t \<Rightarrow> st\<lparr>st_graph := add_edge (st_graph st) method_id t
                    [(''type'', Some ''CALLS''),
                     (''label'', Some (if c_is_await call then ''await'' else []))]\<rparr>)
         else if truthy base \<and> \<not> truthy target_method_id
         then (case base of None \<Rightarrow> st
               | Some b \<Rightarrow>
                   if has_node (st_graph st) b
                   then st\<lparr>st_graph := add_edge (st_graph st) method_id b
                          [(''type'', Some ''CALLS_EXT''), (''label'', Some target_method_name)]\<rparr>
                   else log_debug (''Call edge skipped: Cannot resolve target for '' @ b @ ''.''
                          @ target_method_name @ ''() from '' @ quoted method_id) st)
         else if \<not> truthy base \<and> target_method_name \<noteq> []
         then log_debug (''Call edge skipped: Cannot resolve target for global/local func ''
                @ target_method_name @ ''() from '' @ quoted method_id) st
         else st)"

definition process_calls ::
  "(string \<times> file_record) list \<Rightarrow> file_record \<Rightarrow> string \<times> call_rec list \<Rightarrow> bstate \<Rightarrow> bstate" where
  "process_calls extracted_data d mc st =
     (if \<not> has_node (st_graph st) (fst mc) then st
      else fold (process_call extracted_data d (fst mc)
                   (node_attr (st_graph st) (fst mc) ''entity_id'')) (snd mc) st)"

text \<open>A \<open>for\<close> loop whose body can raise: the first exception ends the loop.\<close>

fun foldM :: "('a \<Rightarrow> 's \<Rightarrow> 'e + 's) \<Rightarrow> 'a list \<Rightarrow> 's \<Rightarrow> 'e + 's" where
  "foldM f [] s = Inr s"
| "foldM f (x # xs) s = (case f x s of Inl e \<Rightarrow> Inl e | Inr s' \<Rightarrow> foldM f xs s')"

definition add_file_edges ::
  "env \<Rightarrow> (string \<times> file_record) list \<Rightarrow> string \<times> file_record \<Rightarrow> bstate \<Rightarrow> py_error + bstate" where
  "add_file_edges ev extracted_data fd st =
     (case foldM (process_import ev (map fst extracted_data) (fst fd) (snd fd))
             (fr_imports (snd fd)) st of
        Inl e \<Rightarrow> Inl e
      | Inr st1 \<Rightarrow>
          Inr (fold (process_calls extracted_data (snd fd)) (fr_calls (snd fd))
                 (fold (process_deps extracted_data (snd fd)) (fr_dependencies (snd fd)) st1)))"

definition node_phase :: "env \<Rightarrow> (string \<times> file_record) list \<Rightarrow> graph" where
  "node_phase ev extracted_data = fold (add_file_nodes ev) extracted_data empty_graph"

definition edge_phase :: "env \<Rightarrow> (string \<times> file_record) list \<Rightarrow> py_error + bstate" where
  "edge_phase ev extracted_data =
     foldM (add_file_edges ev extracted_data) extracted_data
       \<lparr>st_graph = node_phase ev extracted_data, st_processed_external_imports = [],
        st_log = [Info ''Building graph nodes...'', Info ''Building graph edges...'']\<rparr>"

text \<open>
  \<open>build_graph(extracted_data, config)\<close>: the graph and the messages logged, or the
  exception that ended the run.  The source never reads \<open>config\<close>.
\<close>

definition build_graph ::
  "env \<Rightarrow> (string \<times> file_record) list \<Rightarrow> py_error + (graph \<times> log_entry list)" where
  "build_graph ev extracted_data =
     (case edge_phase ev extracted_data of
        Inl e \<Rightarrow> Inl e
      | Inr st \<Rightarrow>
          Inr (st_graph st,
               st_log st @ [Info (''Graph built with '' @ show_nat (length (g_node (st_graph st)))
                 @ '' nodes and '' @ show_nat (length (g_adj (st_graph st))) @ '' edges.'')]))"

section \<open>Decoded syntax trees\<close>

text \<open>
  A syntax tree is what \<open>json.load\<close> returns: \<open>None\<close>, a \<open>bool\<close>, an \<open>int\<close>, a \<open>float\<close>
  (kept as its \<open>repr\<close>, which is also its \<open>str\<close>), a \<open>str\<close>, a \<open>list\<close> or a \<open>dict\<close> with
  string keys in insertion order.  \<open>JNull\<close> is also the \<open>None\<close> that the functions of the
  source return.
\<close>

datatype json =
    JNull
  | JBool bool
  | JInt int
  | JFloat string
  | JStr string
  | JArr "json list"
  | JObj "(string \<times> json) list"

text \<open>\<open>bool(x)\<close>, the test behind \<open>if x\<close> and \<open>not x\<close>.\<close>

fun py_truthy :: "json \<Rightarrow> bool" where
  "py_truthy JNull = False"
| "py_truthy (JBool b) = b"
| "py_truthy (JInt n) = (n \<noteq> 0)"
| "py_truthy (JFloat r) = (r \<noteq> ''0.0'' \<and> r \<noteq> ''-0.0'')"
| "py_truthy (JStr s) = (s \<noteq> [])"
| "py_truthy (JArr xs) = (xs \<noteq> [])"
| "py_truthy (JObj kvs) = (kvs \<noteq> [])"

fun is_dict :: "json \<Rightarrow> bool" where
  "is_dict (JObj kvs) = True"
| "is_dict _ = False"

fun is_container :: "json \<Rightarrow> bool" where
  "is_container (JObj kvs) = True"
| "is_container (JArr xs) = True"
| "is_container _ = False"

text \<open>
  \<open>x.get(k, d)\<close>: only a dict has the method; on any other value the attribute lookup
  raises \<open>AttributeError\<close>.  \<open>x.get(k)\<close> is \<open>py_get x k JNull\<close>.
\<close>

fun py_get :: "json \<Rightarrow> string \<Rightarrow> json \<Rightarrow> py_error + json" where
  "py_get (JObj kvs) k d = Inr (case map_of kvs k of None \<Rightarrow> d | Some v \<Rightarrow> v)"
| "py_get _ k d = Inl AttributeError"

text \<open>
  \<open>for x in v\<close>: the items of a list, the keys of a dict, the characters of a string;
  anything else is not iterable.
\<close>

fun py_iter :: "json \<Rightarrow> py_error + json list" where
  "py_iter (JArr xs) = Inr xs"
| "py_iter (JObj kvs) = Inr (map (\<lambda>kv. JStr (fst kv)) kvs)"
| "py_iter (JStr s) = Inr (map (\<lambda>c. JStr [c]) s)"
| "py_iter _ = Inl TypeError"

text \<open>Sequencing of steps that can raise, and a comprehension whose body can raise.\<close>

definition ebind :: "'e + 'a \<Rightarrow> ('a \<Rightarrow> 'e + 'b) \<Rightarrow> 'e + 'b" where
  "ebind m f = (case m of Inl e \<Rightarrow> Inl e | Inr x \<Rightarrow> f x)"

fun mapM :: "('a \<Rightarrow> 'e + 'b) \<Rightarrow> 'a list \<Rightarrow> 'e + 'b list" where
  "mapM f [] = Inr []"
| "mapM f (x # xs) =
     (case f x of Inl e \<Rightarrow> Inl e
      | Inr y \<Rightarrow> (case mapM f xs of Inl e \<Rightarrow> Inl e | Inr ys \<Rightarrow> Inr (y # ys)))"

text \<open>String methods.\<close>

definition py_startswith :: "string \<Rightarrow> string \<Rightarrow> bool" where
  "py_startswith s p = (take (length p) s = p)"

definition py_endswith :: "string \<Rightarrow> string \<Rightarrow> bool" where
  "py_endswith s p = (length p \<le> length s \<and> drop (length s - length p) s = p)"

text \<open>\<open>s.replace(old, new)\<close>: every occurrence, left to right, without overlap.\<close>

function py_replace :: "string \<Rightarrow> string \<Rightarrow> string \<Rightarrow> string" where
  "py_replace [] new s = new @ concat (map (\<lambda>c. c # new) s)"
| "py_replace (a # old) new [] = []"
| "py_replace (a # old) new (c # cs) =
     (if py_startswith (c # cs) (a # old)
      then new @ py_replace (a # old) new (drop (length old) cs)
      else c # py_replace (a # old) new cs)"
  by pat_completeness auto
termination
  by (relation "measure (\<lambda>(old, new, s). length s)") auto

definition py_lower_char :: "char \<Rightarrow> char" where
  "py_lower_char c =
     (let n = of_char c :: nat in if 65 \<le> n \<and> n \<le> 90 then char_of (n + 32) else c)"

definition py_lower :: "string \<Rightarrow> string" where
  "py_lower s = map py_lower_char s"

text \<open>\<open>sep.join(xs)\<close> raises \<open>TypeError\<close> on an item that is not a string.\<close>

fun the_strings :: "json list \<Rightarrow> py_error + string list" where
  "the_strings [] = Inr []"
| "the_strings (JStr s # xs) =
     (case the_strings xs of Inl e \<Rightarrow> Inl e | Inr ss \<Rightarrow> Inr (s # ss))"
| "the_strings (_ # xs) = Inl TypeError"

definition py_join_values :: "string \<Rightarrow> json list \<Rightarrow> py_error + string" where
  "py_join_values sep xs = (case the_strings xs of Inl e \<Rightarrow> Inl e | Inr ss \<Rightarrow> Inr (py_join sep ss))"

text \<open>
  \<open>str(x)\<close>, as an f-string formats a value.  The text of a list or a dict (which
  quotes and escapes the strings inside), \<open>repr(x)\<close> and the equality \<open>x == y\<close> of two
  decoded values (which identifies \<open>True\<close>, \<open>1\<close> and \<open>1.0\<close>, and dicts that differ in
  order) are parameters of the model.  So are \<open>str(Path(p))\<close> and the path of a file
  relative to the working directory (\<open>None\<close> when \<open>relative_to\<close> raises \<open>ValueError\<close>).
  A comparison with a string literal needs no parameter: only that string is equal to it.
\<close>

record pyenv =
  str_of_container :: "json \<Rightarrow> string"
  py_repr :: "json \<Rightarrow> string"
  py_equal :: "json \<Rightarrow> json \<Rightarrow> bool"
  path_str :: "string \<Rightarrow> string"
  relative_to_cwd :: "string \<Rightarrow> string option"

definition show_int :: "int \<Rightarrow> string" where
  "show_int i = (if i < 0 then CHR ''-'' # show_nat (nat (- i)) else show_nat (nat i))"

fun py_str :: "pyenv \<Rightarrow> json \<Rightarrow> string" where
  "py_str pe JNull = ''None''"
| "py_str pe (JBool b) = (if b then ''True'' else ''False'')"
| "py_str pe (JInt i) = show_int i"
| "py_str pe (JFloat r) = r"
| "py_str pe (JStr s) = s"
| "py_str pe (JArr xs) = str_of_container pe (JArr xs)"
| "py_str pe (JObj kvs) = str_of_container pe (JObj kvs)"

text \<open>What bounds the recursion of the tree walks.\<close>

fun weight :: "json \<Rightarrow> nat" and weights :: "json list \<Rightarrow> nat"
  and weight_fields :: "(string \<times> json) list \<Rightarrow> nat" where
  "weight JNull = 0"
| "weight (JBool b) = 0"
| "weight (JInt i) = 0"
| "weight (JFloat r) = 0"
| "weight (JStr s) = Suc (length s)"
| "weight (JArr xs) = Suc (weights xs)"
| "weight (JObj kvs) = Suc (weight_fields kvs)"
| "weights [] = 0"
| "weights (x # xs) = Suc (weight x + weights xs)"
| "weight_fields [] = 0"
| "weight_fields (kv # kvs) = Suc (weight (snd kv) + weight_fields kvs)"

definition node_weight :: "json \<Rightarrow> nat" where
  "node_weight x = (if is_dict x then weight x else 0)"

fun nodes_weight :: "json list \<Rightarrow> nat" where
  "nodes_weight [] = 0"
| "nodes_weight (x # xs) = Suc (node_weight x + nodes_weight xs)"

fun containers :: "json \<Rightarrow> nat" and containers_list :: "json list \<Rightarrow> nat"
  and containers_fields :: "(string \<times> json) list \<Rightarrow> nat" where
  "containers JNull = 0"
| "containers (JBool b) = 0"
| "containers (JInt i) = 0"
| "containers (JFloat r) = 0"
| "containers (JStr s) = 0"
| "containers (JArr xs) = Suc (containers_list xs)"
| "containers (JObj kvs) = Suc (containers_fields kvs)"
| "containers_list [] = 0"
| "containers_list (x # xs) = containers x + containers_list xs"
| "containers_fields [] = 0"
| "containers_fields (kv # kvs) = containers (snd kv) + containers_fields kvs"

section \<open>\<open>get_node_name\<close> and \<open>format_arguments\<close>\<close>

text \<open>\<open>node.get('id', {}).get('name')\<close>.\<close>

definition id_name :: "json \<Rightarrow> py_error + json" where
  "id_name node = ebind (py_get node ''id'' (JObj [])) (\<lambda>i. py_get i ''name'' JNull)"

function get_node_name :: "pyenv \<Rightarrow> json \<Rightarrow> py_error + json" where
  "get_node_name pe node =
     (if \<not> py_truthy node then Inr JNull
      else case py_get node ''type'' JNull of
        Inl e \<Rightarrow> Inl e
      | Inr tag \<Rightarrow>
          if tag = JStr ''Identifier'' \<or> tag = JStr ''PrivateName''
          then py_get node ''name'' JNull
          else if tag = JStr ''ClassDeclaration'' then id_name node
          else if tag = JStr ''MethodDefinition''
          then (case py_get node ''key'' JNull of
                  Inl e \<Rightarrow> Inl e
                | Inr key \<Rightarrow> get_node_name pe key)
          else if tag = JStr ''TSInterfaceDeclaration'' then id_name node
          else if tag = JStr ''FunctionDeclaration'' then id_name node
          else if tag = JStr ''VariableDeclarator'' then id_name node
          else if tag = JStr ''MemberExpression''
          then (case py_get node ''object'' JNull of
                  Inl e \<Rightarrow> Inl e
                | Inr obj \<Rightarrow>
                    (case get_node_name pe obj of
                       Inl e \<Rightarrow> Inl e
                     | Inr obj_name \<Rightarrow>
                         (case py_get node ''property'' JNull of
                            Inl e \<Rightarrow> Inl e
                          | Inr member \<Rightarrow>
                              (case get_node_name pe member of
                                 Inl e \<Rightarrow> Inl e
                               | Inr member_name \<Rightarrow>
                                   Inr (if py_truthy obj_name \<and> py_truthy member_name
                                        then JStr (py_str pe obj_name @ ''.'' @ py_str pe member_name)
                                        else member_name)))))
          else if tag = JStr ''Literal''
          then (case py_get node ''value'' JNull of
                  Inl e \<Rightarrow> Inl e
                | Inr v \<Rightarrow> Inr (JStr (py_str pe v)))
          else Inr JNull)"
  by pat_completeness auto
termination
proof (relation "measure (\<lambda>(pe, node). weight node)")
  have field: "weight v \<le> weight_fields kvs" if "map_of kvs k = Some v" for kvs k v
    using that by (induction kvs) (auto split: if_splits)
  have get: "weight v < weight node" if "py_get node k JNull = Inr v" for node k v
    using that field [of _ k v] by (cases node) (auto split: option.splits simp: less_Suc_eq_le)
  show "wf (measure (\<lambda>(pe, node). weight node))" by simp
  show "((pe, key), pe, node) \<in> measure (\<lambda>(pe, node). weight node)"
    if "py_get node ''key'' JNull = Inr key" for pe node key
    using get [OF that] by simp
  show "((pe, obj), pe, node) \<in> measure (\<lambda>(pe, node). weight node)"
    if "py_get node ''object'' JNull = Inr obj" for pe node obj
    using get [OF that] by simp
  show "((pe, member), pe, node) \<in> measure (\<lambda>(pe, node). weight node)"
    if "py_get node ''property'' JNull = Inr member" for pe node member
    using get [OF that] by simp
qed

declare get_node_name.simps [simp del]

definition format_argument :: "pyenv \<Rightarrow> json \<Rightarrow> py_error + json" where
  "format_argument pe arg =
     ebind (get_node_name pe arg) (\<lambda>arg_name.
       if py_truthy arg_name then Inr arg_name
       else ebind (py_get arg ''type'' JNull) (\<lambda>t.
         if t = JStr ''Literal''
         then ebind (py_get arg ''value'' JNull) (\<lambda>v. Inr (JStr (py_repr pe v)))
         else if t = JStr ''ObjectExpression'' then Inr (JStr ''{...}'')
         else if t = JStr ''ArrayExpression'' then Inr (JStr ''[...]'')
         else py_get arg ''type'' (JStr ''unknown'')))"

definition format_arguments :: "pyenv \<Rightarrow> json \<Rightarrow> py_error + string" where
  "format_arguments pe args_nodes =
     (if \<not> py_truthy args_nodes then Inr ''()''
      else ebind (py_iter args_nodes) (\<lambda>args.
           ebind (mapM (format_argument pe) args) (\<lambda>arg_strings.
           ebind (py_join_values '', '' arg_strings) (\<lambda>joined.
           Inr (''('' @ joined @ '')'')))))"

section \<open>\<open>get_type_annotation_str\<close>\<close>

text \<open>
  The annotation the function reads (lines 158 to 166): the node's own \<open>typeAnnotation\<close>,
  else the one of its \<open>parameter\<close>, else the one of its \<open>id\<close>.  A result that is not
  truthy makes the function return \<open>any\<close>.
\<close>

definition type_annotation_of :: "json \<Rightarrow> py_error + json" where
  "type_annotation_of node =
     ebind (py_get node ''typeAnnotation'' JNull) (\<lambda>type_ann.
       if py_truthy type_ann then Inr type_ann
       else
         ebind (py_get node ''parameter'' (JObj [])) (\<lambda>p.
         ebind (py_get p ''typeAnnotation'' (JObj [])) (\<lambda>pa.
         ebind (py_get pa ''typeAnnotation'' JNull) (\<lambda>type_ann2.
           if py_truthy type_ann2 then Inr type_ann2
           else
             ebind (py_get node ''id'' (JObj [])) (\<lambda>i.
             ebind (py_get i ''typeAnnotation'' (JObj [])) (\<lambda>ia.
             py_get ia ''typeAnnotation'' JNull))))))"

definition keyword_kinds :: "string list" where
  "keyword_kinds =
     [''TSStringKeyword'', ''TSNumberKeyword'', ''TSBooleanKeyword'', ''TSVoidKeyword'',
      ''TSAnyKeyword'', ''TSNullKeyword'', ''TSUndefinedKeyword'', ''TSNeverKeyword'',
      ''TSUnknownKeyword'', ''TSSymbolKeyword'', ''TSObjectKeyword'']"

definition keyword_name :: "string \<Rightarrow> string" where
  "keyword_name type_kind = py_lower (py_replace ''TS'' [] (py_replace ''Keyword'' [] type_kind))"

text \<open>The clean-up of line 176: a string that ends in \<open>: any\<close> loses every \<open>: any\<close>.\<close>

fun clean_any :: "json \<Rightarrow> json" where
  "clean_any (JStr s) = (if py_endswith s '': any'' then JStr (py_replace '': any'' [] s) else JStr s)"
| "clean_any x = x"

function get_type_annotation_str :: "pyenv \<Rightarrow> json \<Rightarrow> py_error + json"
  and type_strs :: "pyenv \<Rightarrow> json list \<Rightarrow> py_error + json list" where
  "get_type_annotation_str pe node =
     (if \<not> py_truthy node then Inr (JStr ''any'')
      else case type_annotation_of node of
        Inl e \<Rightarrow> Inl e
      | Inr type_ann \<Rightarrow>
          if \<not> py_truthy type_ann then Inr (JStr ''any'')
          else (case py_get type_ann ''type'' JNull of
            Inl e \<Rightarrow> Inl e
          | Inr type_kind \<Rightarrow>
              if type_kind = JStr ''TSTypeReference''
              then (case py_get type_ann ''typeName'' JNull of
                      Inl e \<Rightarrow> Inl e
                    | Inr type_name \<Rightarrow>
                    (case get_node_name pe type_name of
                      Inl e \<Rightarrow> Inl e
                    | Inr name \<Rightarrow>
                    (case py_get type_ann ''typeArguments'' (JObj []) of
                      Inl e \<Rightarrow> Inl e
                    | Inr type_args \<Rightarrow>
                    (case py_get type_args ''params'' (JArr []) of
                      Inl e \<Rightarrow> Inl e
                    | Inr args \<Rightarrow>
                        if py_truthy args
                        then (case py_iter args of
                                Inl e \<Rightarrow> Inl e
                              | Inr items \<Rightarrow>
                              (case type_strs pe items of
                                Inl e \<Rightarrow> Inl e
                              | Inr arg_strs \<Rightarrow>
                              (case py_join_values '', '' (map clean_any arg_strs) of
                                Inl e \<Rightarrow> Inl e
                              | Inr joined \<Rightarrow>
                                  Inr (JStr (py_str pe name @ ''<'' @ joined @ ''>'')))))
                        else Inr (if py_truthy name then name else JStr ''unknown'')))))
              else if type_kind \<in> JStr ` set keyword_kinds
              then (case type_kind of JStr k \<Rightarrow> Inr (JStr (keyword_name k)) | _ \<Rightarrow> Inl TypeError)
              else if type_kind = JStr ''TSUnionType''
              then (case py_get type_ann ''types'' (JArr []) of
                      Inl e \<Rightarrow> Inl e
                    | Inr types \<Rightarrow>
                    (case py_iter types of
                      Inl e \<Rightarrow> Inl e
                    | Inr items \<Rightarrow>
                    (case type_strs pe items of
                      Inl e \<Rightarrow> Inl e
                    | Inr strs \<Rightarrow>
                    (case py_join_values '' | '' strs of
                      Inl e \<Rightarrow> Inl e
                    | Inr joined \<Rightarrow> Inr (JStr joined)))))
              else if type_kind = JStr ''TSIntersectionType''
              then (case py_get type_ann ''types'' (JArr []) of
                      Inl e \<Rightarrow> Inl e
                    | Inr types \<Rightarrow>
                    (case py_iter types of
                      Inl e \<Rightarrow> Inl e
                    | Inr items \<Rightarrow>
                    (case type_strs pe items of
                      Inl e \<Rightarrow> Inl e
                    | Inr strs \<Rightarrow>
                    (case py_join_values '' & '' strs of
                      Inl e \<Rightarrow> Inl e
                    | Inr joined \<Rightarrow> Inr (JStr joined)))))
              else if type_kind = JStr ''TSTypeLiteral'' then Inr (JStr ''{...}'')
              else if type_kind = JStr ''TSArrayType''
              then (case py_get type_ann ''elementType'' JNull of
                      Inl e \<Rightarrow> Inl e
                    | Inr element \<Rightarrow>
                    (case get_type_annotation_str pe element of
                      Inl e \<Rightarrow> Inl e
                    | Inr elem_type \<Rightarrow> Inr (JStr (py_str pe elem_type @ ''[]''))))
              else if type_kind = JStr ''TSTupleType''
              then (case py_get type_ann ''elementTypes'' (JArr []) of
                      Inl e \<Rightarrow> Inl e
                    | Inr types \<Rightarrow>
                    (case py_iter types of
                      Inl e \<Rightarrow> Inl e
                    | Inr items \<Rightarrow>
                    (case type_strs pe items of
                      Inl e \<Rightarrow> Inl e
                    | Inr elem_types \<Rightarrow>
                    (case py_join_values '', '' elem_types of
                      Inl e \<Rightarrow> Inl e
                    | Inr joined \<Rightarrow> Inr (JStr (''['' @ joined @ '']''))))))
              else Inr (JStr ''any'')))"
| "type_strs pe [] = Inr []"
| "type_strs pe (x # xs) =
     (case get_type_annotation_str pe x of
        Inl e \<Rightarrow> Inl e
      | Inr s \<Rightarrow> (case type_strs pe xs of Inl e \<Rightarrow> Inl e | Inr ss \<Rightarrow> Inr (s # ss)))"
  by pat_completeness auto
termination
proof (relation "measure (\<lambda>x. case x of Inl (pe, node) \<Rightarrow> node_weight node
                                     | Inr (pe, xs) \<Rightarrow> nodes_weight xs)")
  have field: "weight v \<le> weight_fields kvs" if "map_of kvs k = Some v" for kvs k v
    using that by (induction kvs) (auto split: if_splits)
  have get: "v = d \<or> weight v < weight x" if "py_get x k d = Inr v" for x k d v
    using that field [of _ k v] by (cases x) (auto split: option.splits simp: less_Suc_eq_le)
  have get_dict: "is_dict x" if "py_get x k d = Inr v" for x k d v
    using that by (cases x) auto
  have dict_pos: "0 < weight x" if "is_dict x" for x
    using that by (cases x) auto
  have nw: "node_weight x \<le> weight x" for x
    by (simp add: node_weight_def)
  have nws: "nodes_weight xs \<le> weights xs" for xs
    by (induction xs) (auto simp: node_weight_def)
  have keys: "nodes_weight (map (\<lambda>kv. JStr (fst kv)) kvs) \<le> weight_fields kvs"
    for kvs :: "(string \<times> json) list"
    by (induction kvs) (auto simp: node_weight_def)
  have chars: "nodes_weight (map (\<lambda>c. JStr [c]) s) = length s" for s
    by (induction s) (auto simp: node_weight_def)
  have iter: "nodes_weight xs < weight v" if "py_iter v = Inr xs" for v xs
    using that nws [of xs] keys chars by (cases v) (auto simp: less_Suc_eq_le)
  have ann: "weight ta < weight node \<and> is_dict node"
    if "type_annotation_of node = Inr ta" and "py_truthy ta" for node ta
  proof -
    from that(1) obtain a where a: "py_get node ''typeAnnotation'' JNull = Inr a"
      by (auto simp: type_annotation_of_def ebind_def split: sum.splits)
    show ?thesis
    proof (cases "py_truthy a")
      case True
      with that a have "ta = a" by (simp add: type_annotation_of_def ebind_def)
      with get [OF a] that(2) get_dict [OF a] dict_pos [of node] show ?thesis by auto
    next
      case False
      with that(1) a obtain p pa t2
        where p: "py_get node ''parameter'' (JObj []) = Inr p"
          and pa: "py_get p ''typeAnnotation'' (JObj []) = Inr pa"
          and t2: "py_get pa ''typeAnnotation'' JNull = Inr t2"
        by (auto simp: type_annotation_of_def ebind_def split: sum.splits)
      show ?thesis
      proof (cases "py_truthy t2")
        case True
        with that a False p pa t2 have "ta = t2" by (simp add: type_annotation_of_def ebind_def)
        with get [OF p] get [OF pa] get [OF t2] that(2) get_dict [OF a] dict_pos [of node]
        show ?thesis by auto
      next
        case f2: False
        with that(1) a False p pa t2 obtain i ia
          where i: "py_get node ''id'' (JObj []) = Inr i"
            and ia: "py_get i ''typeAnnotation'' (JObj []) = Inr ia"
            and t3: "py_get ia ''typeAnnotation'' JNull = Inr ta"
          by (auto simp: type_annotation_of_def ebind_def split: sum.splits)
        with get [OF i] get [OF ia] get [OF t3] that(2) get_dict [OF a] dict_pos [of node]
        show ?thesis by auto
      qed
    qed
  qed
  have nested: "nodes_weight items < node_weight node"
    if "type_annotation_of node = Inr ta" and "py_truthy ta"
      and "py_get ta k (JArr []) = Inr v" and "py_iter v = Inr items" for node ta k v items
    using ann [OF that(1,2)] get [OF that(3)] iter [OF that(4)] that(4)
    by (auto simp: node_weight_def)
  show "wf (measure (\<lambda>x. case x of Inl (pe, node) \<Rightarrow> node_weight node
                                | Inr (pe, xs) \<Rightarrow> nodes_weight xs))"
    by simp
  show "(Inr (pe, items), Inl (pe, node))
          \<in> measure (\<lambda>x. case x of Inl (pe, node) \<Rightarrow> node_weight node
                                 | Inr (pe, xs) \<Rightarrow> nodes_weight xs)"
    if "type_annotation_of node = Inr ta" and "\<not> \<not> py_truthy ta"
      and "py_get ta ''typeArguments'' (JObj []) = Inr type_args"
      and "py_get type_args ''params'' (JArr []) = Inr args"
      and "py_iter args = Inr items" for pe node ta type_args args items
  proof -
    from that(2) have t: "py_truthy ta" by simp
    from get [OF that(3)] get [OF that(4)] iter [OF that(5)] that(5) ann [OF that(1) t]
    show ?thesis by (auto simp: node_weight_def)
  qed
  show "(Inr (pe, items), Inl (pe, node))
          \<in> measure (\<lambda>x. case x of Inl (pe, node) \<Rightarrow> node_weight node
                                 | Inr (pe, xs) \<Rightarrow> nodes_weight xs)"
    if "type_annotation_of node = Inr ta" and "\<not> \<not> py_truthy ta"
      and "py_get ta ''types'' (JArr []) = Inr types" and "py_iter types = Inr items"
    for pe node ta types items
    using nested [OF that(1) _ that(3,4)] that(2) by simp
  show "(Inr (pe, items), Inl (pe, node))
          \<in> measure (\<lambda>x. case x of Inl (pe, node) \<Rightarrow> node_weight node
                                 | Inr (pe, xs) \<Rightarrow> nodes_weight xs)"
    if "type_annotation_of node = Inr ta" and "\<not> \<not> py_truthy ta"
      and "py_get ta ''types'' (JArr []) = Inr types" and "py_iter types = Inr items"
    for pe node ta types items
    using nested [OF that(1) _ that(3,4)] that(2) by simp
  show "(Inl (pe, element), Inl (pe, node))
          \<in> measure (\<lambda>x. case x of Inl (pe, node) \<Rightarrow> node_weight node
                                 | Inr (pe, xs) \<Rightarrow> nodes_weight xs)"
    if "type_annotation_of node = Inr ta" and "\<not> \<not> py_truthy ta"
      and "py_get ta ''elementType'' JNull = Inr element" for pe node ta element
    using ann [OF that(1)] that(2) get [OF that(3)] nw [of element]
    by (auto simp: node_weight_def)
  show "(Inr (pe, items), Inl (pe, node))
          \<in> measure (\<lambda>x. case x of Inl (pe, node) \<Rightarrow> node_weight node
                                 | Inr (pe, xs) \<Rightarrow> nodes_weight xs)"
    if "type_annotation_of node = Inr ta" and "\<not> \<not> py_truthy ta"
      and "py_get ta ''elementTypes'' (JArr []) = Inr types" and "py_iter types = Inr items"
    for pe node ta types items
    using nested [OF that(1) _ that(3,4)] that(2) by simp
  show "(Inl (pe, x), Inr (pe, x # xs))
          \<in> measure (\<lambda>x. case x of Inl (pe, node) \<Rightarrow> node_weight node
                                 | Inr (pe, xs) \<Rightarrow> nodes_weight xs)"
    for pe x xs
    by simp
  show "(Inr (pe, xs), Inr (pe, x # xs))
          \<in> measure (\<lambda>x. case x of Inl (pe, node) \<Rightarrow> node_weight node
                                 | Inr (pe, xs) \<Rightarrow> nodes_weight xs)"
    for pe x xs
    by simp
qed

declare get_type_annotation_str.simps [simp del]

section \<open>\<open>extract_calls\<close>\<close>

record x_call =
  xc_base_expression :: json
  xc_called_method_name :: json
  xc_arguments_str :: string
  xc_is_await :: bool

text \<open>The base expression and the method name of a callee (lines 78 to 99).\<close>

definition callee_parts :: "pyenv \<Rightarrow> json \<Rightarrow> py_error + (json \<times> json)" where
  "callee_parts pe callee =
     (if \<not> py_truthy callee then Inr (JNull, JNull)
      else ebind (py_get callee ''type'' JNull) (\<lambda>callee_type.
        if callee_type = JStr ''MemberExpression''
        then ebind (py_get callee ''object'' JNull) (\<lambda>base_node.
             ebind (py_get callee ''property'' JNull) (\<lambda>method_node.
             ebind (if py_truthy base_node
                    then ebind (py_get base_node ''type'' JNull) (\<lambda>base_type.
                           if base_type = JStr ''ThisExpression'' then Inr (JStr ''this'')
                           else ebind (get_node_name pe base_node) (\<lambda>n.
                                  Inr (if py_truthy n then n else JStr ''unknown_base'')))
                    else Inr JNull) (\<lambda>base_expression.
             ebind (get_node_name pe method_node) (\<lambda>called_method_name.
             Inr (base_expression, called_method_name)))))
        else if callee_type = JStr ''Identifier''
        then ebind (get_node_name pe callee) (\<lambda>called_method_name.
               Inr (JNull, called_method_name))
        else if callee_type = JStr ''Super'' then Inr (JNull, JStr ''super'')
        else Inr (JNull, JNull)))"

text \<open>
  The record of a call expression, if its method name could be identified (lines 74 to
  113).  \<open>is_await\<close> is read from the key \<open>_parent_type\<close> of the node itself.
\<close>

definition call_site :: "pyenv \<Rightarrow> json \<Rightarrow> py_error + x_call option" where
  "call_site pe node =
     ebind (py_get node ''callee'' JNull) (\<lambda>callee.
     ebind (callee_parts pe callee) (\<lambda>parts.
       if py_truthy (snd parts)
       then ebind (py_get node ''arguments'' JNull) (\<lambda>arguments.
            ebind (format_arguments pe arguments) (\<lambda>arguments_str.
            ebind (py_get node ''_parent_type'' JNull) (\<lambda>parent_type.
            Inr (Some \<lparr>xc_base_expression = fst parts, xc_called_method_name = snd parts,
                       xc_arguments_str = arguments_str,
                       xc_is_await = (parent_type = JStr ''AwaitExpression'')\<rparr>))))
       else Inr None))"

text \<open>\<open>del value['_parent_type']\<close>.\<close>

fun del_parent_type :: "json \<Rightarrow> py_error + json" where
  "del_parent_type (JObj kvs) =
     (if ''_parent_type'' \<in> fst ` set kvs then Inr (JObj (AList.delete ''_parent_type'' kvs))
      else Inl KeyError)"
| "del_parent_type _ = Inl TypeError"

text \<open>
  The walk writes into the dicts of the tree it is given, so the model returns the tree
  as the walk leaves it, next to the list of calls.  The tree has no shared nodes, as
  \<open>json.load\<close> builds it.  The assignment \<open>value['_parent_type'] = node_type\<close> stores the
  tag of the parent in the child; when the tag is itself a list or a dict, parent and
  child would share that object from then on, and the model ends with \<open>Aliased\<close>.
  \<open>walk_fields\<close> is the loop over \<open>node.items()\<close>, \<open>walk_items\<close> the loop over a list
  value.
\<close>

function extract_calls :: "pyenv \<Rightarrow> json \<Rightarrow> x_call list \<Rightarrow> py_error + (json \<times> x_call list)"
  and walk_fields ::
    "pyenv \<Rightarrow> json \<Rightarrow> (string \<times> json) list \<Rightarrow> x_call list
       \<Rightarrow> py_error + ((string \<times> json) list \<times> x_call list)"
  and walk_items ::
    "pyenv \<Rightarrow> json \<Rightarrow> json list \<Rightarrow> x_call list \<Rightarrow> py_error + (json list \<times> x_call list)"
where
  "extract_calls pe node current_calls =
     (case node of
        JObj kvs \<Rightarrow>
          (case py_get node ''type'' JNull of
             Inl e \<Rightarrow> Inl e
           | Inr tag \<Rightarrow>
               (case (if tag = JStr ''CallExpression'' then call_site pe node else Inr None) of
                  Inl e \<Rightarrow> Inl e
                | Inr found \<Rightarrow>
                    (case walk_fields pe tag kvs
                            (case found of None \<Rightarrow> current_calls
                             | Some call_info \<Rightarrow> current_calls @ [call_info]) of
                       Inl e \<Rightarrow> Inl e
                     | Inr r \<Rightarrow> Inr (JObj (fst r), snd r))))
      | _ \<Rightarrow> Inr (node, current_calls))"
| "walk_fields pe tag [] calls = Inr ([], calls)"
| "walk_fields pe tag (kv # rest) calls =
     (if fst kv = ''range'' \<or> fst kv = ''loc'' \<or> fst kv = ''decorators''
      then (case walk_fields pe tag rest calls of
              Inl e \<Rightarrow> Inl e
            | Inr r \<Rightarrow> Inr (kv # fst r, snd r))
      else case snd kv of
        JObj child \<Rightarrow>
          (if is_container tag then Inl Aliased
           else case extract_calls pe (JObj (AList.update ''_parent_type'' tag child)) calls of
             Inl e \<Rightarrow> Inl e
           | Inr visited \<Rightarrow>
               (case del_parent_type (fst visited) of
                  Inl e \<Rightarrow> Inl e
                | Inr restored \<Rightarrow>
                    (case walk_fields pe tag rest (snd visited) of
                       Inl e \<Rightarrow> Inl e
                     | Inr r \<Rightarrow> Inr ((fst kv, restored) # fst r, snd r))))
      | JArr items \<Rightarrow>
          (case walk_items pe tag items calls of
             Inl e \<Rightarrow> Inl e
           | Inr walked \<Rightarrow>
               (case walk_fields pe tag rest (snd walked) of
                  Inl e \<Rightarrow> Inl e
                | Inr r \<Rightarrow> Inr ((fst kv, JArr (fst walked)) # fst r, snd r)))
      | _ \<Rightarrow>
          (case walk_fields pe tag rest calls of
             Inl e \<Rightarrow> Inl e
           | Inr r \<Rightarrow> Inr (kv # fst r, snd r)))"
| "walk_items pe tag [] calls = Inr ([], calls)"
| "walk_items pe tag (item # rest) calls =
     (case item of
        JObj child \<Rightarrow>
          (if is_container tag then Inl Aliased
           else case extract_calls pe (JObj (AList.update ''_parent_type'' tag child)) calls of
             Inl e \<Rightarrow> Inl e
           | Inr visited \<Rightarrow>
               (case del_parent_type (fst visited) of
                  Inl e \<Rightarrow> Inl e
                | Inr restored \<Rightarrow>
                    (case walk_items pe tag rest (snd visited) of
                       Inl e \<Rightarrow> Inl e
                     | Inr r \<Rightarrow> Inr (restored # fst r, snd r))))
      | _ \<Rightarrow>
          (case walk_items pe tag rest calls of
             Inl e \<Rightarrow> Inl e
           | Inr r \<Rightarrow> Inr (item # fst r, snd r)))"
  by pat_completeness auto
termination
  apply (relation "measures
     [\<lambda>x. case x of Inl (pe, node, calls) \<Rightarrow> containers node
           | Inr (Inl (pe, tag, kvs, calls)) \<Rightarrow> containers_fields kvs
           | Inr (Inr (pe, tag, items, calls)) \<Rightarrow> containers_list items,
      \<lambda>x. case x of Inl (pe, node, calls) \<Rightarrow> 0
           | Inr (Inl (pe, tag, kvs, calls)) \<Rightarrow> Suc (length kvs)
           | Inr (Inr (pe, tag, items, calls)) \<Rightarrow> Suc (length items)]")
  subgoal by auto
  subgoal by auto
  subgoal by auto
  subgoal by auto
  subgoal by auto
  subgoal by auto
  subgoal by auto
  subgoal by auto
  subgoal by auto
  subgoal by auto
  subgoal for pe tag kv rest calls child
  proof -
    assume scalar: "\<not> is_container tag" and kv: "snd kv = JObj child"
    have "containers_fields (AList.update k tag kvs) \<le> containers_fields kvs"
      for k and kvs :: "(string \<times> json) list"
      using scalar by (induction kvs) (cases tag; auto)+
    from this [of "''_parent_type''" child] kv show ?thesis
      by (auto simp: less_Suc_eq_le)
  qed
  subgoal by auto
  subgoal by auto
  subgoal by auto
  subgoal by auto
  subgoal by auto
  subgoal by auto
  subgoal by auto
  subgoal for pe tag item rest calls child
  proof -
    assume scalar: "\<not> is_container tag" and item: "item = JObj child"
    have "containers_fields (AList.update k tag kvs) \<le> containers_fields kvs"
      for k and kvs :: "(string \<times> json) list"
      using scalar by (induction kvs) (cases tag; auto)+
    from this [of "''_parent_type''" child] item show ?thesis
      by (auto simp: less_Suc_eq_le)
  qed
  subgoal by auto
  done

declare extract_calls.simps [simp del]

section \<open>\<open>extract_decorators\<close> and \<open>extract_parameters\<close>\<close>

record x_decorator =
  xd_name :: json
  xd_arguments_str :: string

definition extract_decorator :: "pyenv \<Rightarrow> json \<Rightarrow> py_error + x_decorator option" where
  "extract_decorator pe dec =
     ebind (py_get dec ''expression'' JNull) (\<lambda>expression.
       if \<not> py_truthy expression then Inr None
       else ebind (py_get expression ''type'' JNull) (\<lambda>expression_type.
         if expression_type = JStr ''CallExpression''
         then ebind (py_get expression ''callee'' JNull) (\<lambda>callee.
              ebind (get_node_name pe callee) (\<lambda>decorator_name.
              ebind (py_get expression ''arguments'' JNull) (\<lambda>arguments.
              ebind (format_arguments pe arguments) (\<lambda>arguments_str.
              Inr (if py_truthy decorator_name
                   then Some \<lparr>xd_name = decorator_name, xd_arguments_str = arguments_str\<rparr>
                   else None)))))
         else if expression_type = JStr ''Identifier''
         then ebind (get_node_name pe expression) (\<lambda>decorator_name.
              Inr (if py_truthy decorator_name
                   then Some \<lparr>xd_name = decorator_name, xd_arguments_str = ''()''\<rparr>
                   else None))
         else Inr None))"

definition extract_decorators :: "pyenv \<Rightarrow> json \<Rightarrow> py_error + x_decorator list" where
  "extract_decorators pe decorator_nodes =
     (if \<not> py_truthy decorator_nodes then Inr []
      else ebind (py_iter decorator_nodes) (\<lambda>decs.
           ebind (mapM (extract_decorator pe) decs) (\<lambda>found.
           Inr (List.map_filter (\<lambda>d. d) found))))"

record x_param =
  xp_name :: json
  xp_type :: json
  xp_default :: bool

record x_dep =
  xdp_name :: json
  xdp_type :: json
  xdp_accessibility :: json
  xdp_readonly :: json

definition unknown_param :: x_param where
  "unknown_param = \<lparr>xp_name = JStr ''unknown'', xp_type = JStr ''any'', xp_default = False\<rparr>"

text \<open>
  One parameter: an ordinary parameter (\<open>Inl\<close>) or, for a parameter property with an
  identifier, a constructor dependency (\<open>Inr\<close>).
\<close>

definition extract_parameter :: "pyenv \<Rightarrow> json \<Rightarrow> py_error + (x_param + x_dep)" where
  "extract_parameter pe p =
     ebind (py_get p ''type'' JNull) (\<lambda>p_type.
       if p_type = JStr ''Identifier''
       then ebind (get_node_name pe p) (\<lambda>name.
            ebind (py_get p ''typeAnnotation'' JNull) (\<lambda>annotation.
            ebind (get_type_annotation_str pe annotation) (\<lambda>type_str.
            Inr (Inl \<lparr>xp_name = name, xp_type = type_str, xp_default = False\<rparr>))))
       else if p_type = JStr ''TSParameterProperty''
       then ebind (py_get p ''parameter'' JNull) (\<lambda>param_node.
            ebind (if py_truthy param_node
                   then ebind (py_get param_node ''type'' JNull) (\<lambda>t. Inr (t = JStr ''Identifier''))
                   else Inr False) (\<lambda>is_identifier.
              if is_identifier
              then ebind (get_node_name pe param_node) (\<lambda>name.
                   ebind (py_get param_node ''typeAnnotation'' JNull) (\<lambda>annotation.
                   ebind (get_type_annotation_str pe annotation) (\<lambda>type_str.
                   ebind (py_get p ''accessibility'' JNull) (\<lambda>accessibility.
                   ebind (py_get p ''readonly'' (JBool False)) (\<lambda>readonly.
                   Inr (Inr \<lparr>xdp_name = name, xdp_type = type_str,
                              xdp_accessibility = accessibility, xdp_readonly = readonly\<rparr>))))))
              else Inr (Inl unknown_param)))
       else if p_type = JStr ''AssignmentPattern''
       then ebind (py_get p ''left'' JNull) (\<lambda>left.
            ebind (if py_truthy left
                   then ebind (py_get left ''type'' JNull) (\<lambda>t. Inr (t = JStr ''Identifier''))
                   else Inr False) (\<lambda>is_identifier.
              if is_identifier
              then ebind (get_node_name pe left) (\<lambda>name.
                   ebind (py_get left ''typeAnnotation'' JNull) (\<lambda>annotation.
                   ebind (get_type_annotation_str pe annotation) (\<lambda>type_str.
                   Inr (Inl \<lparr>xp_name = name, xp_type = type_str, xp_default = True\<rparr>))))
              else Inr (Inl unknown_param)))
       else Inr (Inl unknown_param))"

definition extract_parameters :: "pyenv \<Rightarrow> json \<Rightarrow> py_error + (x_param list \<times> x_dep list)" where
  "extract_parameters pe param_nodes =
     (if \<not> py_truthy param_nodes then Inr ([], [])
      else ebind (py_iter param_nodes) (\<lambda>ps.
           ebind (mapM (extract_parameter pe) ps) (\<lambda>found.
           Inr (List.map_filter (\<lambda>r. case r of Inl x \<Rightarrow> Some x | Inr d \<Rightarrow> None) found,
                List.map_filter (\<lambda>r. case r of Inl x \<Rightarrow> None | Inr d \<Rightarrow> Some d) found))))"

section \<open>\<open>extract_features_from_ast\<close>\<close>

record x_import =
  xi_source :: string
  xi_specifiers :: "json list"
  xi_is_external :: bool

record x_export =
  xx_name :: json
  xx_kind :: string

text \<open>An optional key of the dict of an entity is a field that may be \<open>None\<close>.\<close>

record x_entity =
  xn_entity_id :: string
  xn_name :: json
  xn_kind :: string
  xn_file_id :: string
  xn_superClass :: "json option"
  xn_implements :: "json list option"
  xn_kind_detail :: "json option"
  xn_var_kind :: "json option"

record x_method =
  xm_method_id :: string
  xm_name :: json
  xm_kind :: json
  xm_entity_id :: string
  xm_is_async :: json
  xm_parameters :: "x_param list"
  xm_return_type :: json

record extracted =
  x_file_id :: string
  x_file_path :: string
  x_imports :: "x_import list"
  x_exports :: "x_export list"
  x_entities :: "(string \<times> x_entity) list"
  x_methods :: "(string \<times> x_method) list"
  x_calls :: "(string \<times> x_call list) list"
  x_dependencies :: "(string \<times> x_dep list) list"
  x_decorators :: "(string \<times> x_decorator list) list"

definition empty_extracted :: "string \<Rightarrow> extracted" where
  "empty_extracted relative_path =
     \<lparr>x_file_id = relative_path, x_file_path = relative_path, x_imports = [], x_exports = [],
      x_entities = [], x_methods = [], x_calls = [], x_dependencies = [], x_decorators = []\<rparr>"

text \<open>
  \<open>s.startswith(p)\<close> and \<open>s.replace(old, new)\<close> on values: the receiver must be a
  string (\<open>AttributeError\<close>), and so must the prefix (\<open>TypeError\<close>).
\<close>

fun startswith_value :: "json \<Rightarrow> json \<Rightarrow> py_error + bool" where
  "startswith_value (JStr s) (JStr p) = Inr (py_startswith s p)"
| "startswith_value (JStr s) _ = Inl TypeError"
| "startswith_value _ _ = Inl AttributeError"

fun replace_value :: "json \<Rightarrow> string \<Rightarrow> string \<Rightarrow> py_error + string" where
  "replace_value (JStr s) old new = Inr (py_replace old new s)"
| "replace_value _ old new = Inl AttributeError"

text \<open>
  \<open>not (source.startswith('.') or source.startswith('/') or
  source.startswith(source_root))\<close>, with the short-circuit of \<open>or\<close>.
\<close>

definition is_external_source :: "json \<Rightarrow> json \<Rightarrow> py_error + bool" where
  "is_external_source source source_root =
     ebind (startswith_value source (JStr ''.'')) (\<lambda>dot.
       if dot then Inr False
       else ebind (startswith_value source (JStr ''/'')) (\<lambda>slash.
         if slash then Inr False
         else ebind (startswith_value source source_root) (\<lambda>rooted. Inr (\<not> rooted))))"

text \<open>The name collected for one import specifier (line 285).\<close>

definition specifier_name :: "pyenv \<Rightarrow> json \<Rightarrow> py_error + json" where
  "specifier_name pe s =
     ebind (py_get s ''local'' JNull) (\<lambda>local.
     ebind (py_get s ''imported'' local) (\<lambda>imported.
     get_node_name pe imported))"

text \<open>
  The \<open>next(...)\<close> of line 287: the local name of the first specifier of type
  \<open>ImportDefaultSpecifier\<close>, or \<open>None\<close>.
\<close>

fun default_specifier_of :: "json list \<Rightarrow> py_error + json" where
  "default_specifier_of [] = Inr JNull"
| "default_specifier_of (s # rest) =
     (case py_get s ''type'' JNull of
        Inl e \<Rightarrow> Inl e
      | Inr t \<Rightarrow>
          if t = JStr ''ImportDefaultSpecifier''
          then ebind (py_get s ''local'' (JObj [])) (\<lambda>local. py_get local ''name'' JNull)
          else default_specifier_of rest)"

definition process_import_declaration ::
  "pyenv \<Rightarrow> json \<Rightarrow> json \<Rightarrow> extracted \<Rightarrow> py_error + extracted" where
  "process_import_declaration pe source_root node ex =
     ebind (py_get node ''source'' (JObj [])) (\<lambda>source_node.
     ebind (py_get source_node ''value'' JNull) (\<lambda>source.
       if \<not> py_truthy source then Inr ex
       else
         ebind (is_external_source source source_root) (\<lambda>is_external.
         ebind (py_get node ''specifiers'' (JArr [])) (\<lambda>specifier_nodes.
         ebind (py_iter specifier_nodes) (\<lambda>nodes.
         ebind (mapM (specifier_name pe) nodes) (\<lambda>specifiers.
         ebind (py_get node ''specifiers'' (JArr [])) (\<lambda>specifier_nodes2.
         ebind (py_iter specifier_nodes2) (\<lambda>nodes2.
         ebind (default_specifier_of nodes2) (\<lambda>default_specifier.
           Inr (ex\<lparr>x_imports := x_imports ex @
              [\<lparr>xi_source = (case source of JStr s \<Rightarrow> s | _ \<Rightarrow> []),
                xi_specifiers =
                  (if py_truthy default_specifier
                      \<and> \<not> list_ex (\<lambda>x. py_equal pe x default_specifier) specifiers
                   then specifiers @ [JStr (''default('' @ py_str pe default_specifier @ '')'')]
                   else specifiers),
                xi_is_external = is_external\<rparr>]\<rparr>))))))))))"

definition process_export_named ::
  "pyenv \<Rightarrow> json \<Rightarrow> extracted \<Rightarrow> py_error + extracted" where
  "process_export_named pe node ex =
     ebind (py_get node ''declaration'' JNull) (\<lambda>declaration.
       if py_truthy declaration
       then ebind (py_get declaration ''type'' JNull) (\<lambda>decl_type.
            ebind (get_node_name pe declaration) (\<lambda>name.
              if py_truthy name
              then ebind (replace_value decl_type ''Declaration'' []) (\<lambda>kind.
                   Inr (ex\<lparr>x_exports := x_exports ex @ [\<lparr>xx_name = name, xx_kind = kind\<rparr>]\<rparr>))
              else Inr ex))
       else ebind (py_get node ''specifiers'' (JArr [])) (\<lambda>specifier_nodes.
            ebind (py_iter specifier_nodes) (\<lambda>specs.
            ebind (mapM (\<lambda>spec. ebind (py_get spec ''exported'' JNull) (get_node_name pe)) specs)
              (\<lambda>names.
            Inr (ex\<lparr>x_exports := x_exports ex @
                   map (\<lambda>n. \<lparr>xx_name = n, xx_kind = ''Unknown''\<rparr>) (filter py_truthy names)\<rparr>)))))"

definition process_export_default ::
  "pyenv \<Rightarrow> json \<Rightarrow> extracted \<Rightarrow> py_error + extracted" where
  "process_export_default pe node ex =
     ebind (py_get node ''declaration'' JNull) (\<lambda>declaration.
     ebind (get_node_name pe declaration) (\<lambda>found.
       let name = (if py_truthy found then found else JStr ''default'') in
       ebind (if name \<noteq> JStr ''default''
              then ebind (py_get declaration ''type'' (JStr ''Unknown'')) (\<lambda>t.
                     replace_value t ''Declaration'' [])
              else Inr ''Unknown'') (\<lambda>kind.
       Inr (ex\<lparr>x_exports := x_exports ex @ [\<lparr>xx_name = name, xx_kind = kind\<rparr>]\<rparr>))))"

text \<open>\<open>d[k] = v\<close> on a dict in insertion order.\<close>

definition dict_set :: "'k \<Rightarrow> 'v \<Rightarrow> ('k \<times> 'v) list \<Rightarrow> ('k \<times> 'v) list" where
  "dict_set k v d = AList.update k v d"

text \<open>\<open>node.get('value', {}).get(k, d)\<close> on a class member.\<close>

definition member_value :: "json \<Rightarrow> string \<Rightarrow> json \<Rightarrow> py_error + json" where
  "member_value member k d = ebind (py_get member ''value'' (JObj [])) (\<lambda>v. py_get v k d)"

definition process_member ::
  "pyenv \<Rightarrow> string \<Rightarrow> string \<Rightarrow> json \<Rightarrow> extracted \<Rightarrow> py_error + extracted" where
  "process_member pe file_id entity_id member ex =
     ebind (py_get member ''type'' JNull) (\<lambda>member_type.
       if member_type \<noteq> JStr ''MethodDefinition'' then Inr ex
       else ebind (get_node_name pe member) (\<lambda>method_name.
         if \<not> py_truthy method_name then Inr ex
         else
           let method_id = entity_id @ ''::'' @ py_str pe method_name in
           ebind (member_value member ''async'' (JBool False)) (\<lambda>is_async.
           ebind (member_value member ''params'' JNull) (\<lambda>param_nodes.
           ebind (extract_parameters pe param_nodes) (\<lambda>params_deps.
           ebind (member_value member ''returnType'' JNull) (\<lambda>return_node.
           ebind (get_type_annotation_str pe return_node) (\<lambda>return_type.
           ebind (py_get member ''decorators'' JNull) (\<lambda>decorator_nodes.
           ebind (extract_decorators pe decorator_nodes) (\<lambda>method_decorators.
           ebind (py_get member ''kind'' (JStr ''method'')) (\<lambda>kind.
           ebind (member_value member ''body'' JNull) (\<lambda>method_body_node.
           ebind (if py_truthy method_body_node
                  then ebind (extract_calls pe method_body_node []) (\<lambda>r. Inr (snd r))
                  else Inr []) (\<lambda>calls.
             Inr (ex\<lparr>x_decorators :=
                       (if method_decorators \<noteq> []
                        then dict_set method_id method_decorators (x_decorators ex)
                        else x_decorators ex),
                     x_methods :=
                       dict_set method_id
                         \<lparr>xm_method_id = method_id, xm_name = method_name, xm_kind = kind,
                          xm_entity_id = entity_id, xm_is_async = is_async,
                          xm_parameters = fst params_deps, xm_return_type = return_type\<rparr>
                         (x_methods ex),
                     x_dependencies :=
                       (if kind = JStr ''constructor'' \<and> snd params_deps \<noteq> []
                        then dict_set entity_id (snd params_deps) (x_dependencies ex)
                        else x_dependencies ex),
                     x_calls :=
                       (if calls \<noteq> [] then dict_set method_id calls (x_calls ex)
                        else x_calls ex)\<rparr>)))))))))))))"

text \<open>The names of the \<open>implements\<close> clause (line 346): each name is computed twice.\<close>

definition implemented_name :: "pyenv \<Rightarrow> json \<Rightarrow> py_error + json" where
  "implemented_name pe imp =
     ebind (py_get imp ''expression'' JNull) (\<lambda>expression.
     ebind (get_node_name pe expression) (\<lambda>tested.
       if py_truthy tested
       then ebind (py_get imp ''expression'' JNull) (get_node_name pe)
       else Inr JNull))"

definition process_class ::
  "pyenv \<Rightarrow> string \<Rightarrow> x_entity \<Rightarrow> json \<Rightarrow> extracted \<Rightarrow> py_error + extracted" where
  "process_class pe file_id entity_data node ex =
     ebind (py_get node ''superClass'' JNull) (\<lambda>super_class_node.
     ebind (if py_truthy super_class_node
            then ebind (get_node_name pe super_class_node) (\<lambda>n. Inr (Some n))
            else Inr None) (\<lambda>super_class.
     ebind (py_get node ''implements'' (JArr [])) (\<lambda>implements_nodes.
     ebind (py_iter implements_nodes) (\<lambda>imps.
     ebind (mapM (implemented_name pe) imps) (\<lambda>names.
     ebind (py_get node ''body'' (JObj [])) (\<lambda>body_node.
     ebind (py_get body_node ''body'' (JArr [])) (\<lambda>class_body.
     ebind (py_iter class_body) (\<lambda>members.
       foldM (process_member pe file_id (xn_entity_id entity_data)) members
         (ex\<lparr>x_entities :=
               dict_set (xn_entity_id entity_data)
                 (entity_data\<lparr>xn_superClass := super_class,
                               xn_implements := Some (filter py_truthy names)\<rparr>)
                 (x_entities ex)\<rparr>)))))))))"

definition process_entity ::
  "pyenv \<Rightarrow> string \<Rightarrow> string \<Rightarrow> json \<Rightarrow> extracted \<Rightarrow> py_error + extracted" where
  "process_entity pe file_id statement_type node ex =
     ebind (get_node_name pe node) (\<lambda>entity_name.
       if \<not> py_truthy entity_name then Inr ex
       else
         let entity_id = file_id @ ''::'' @ py_str pe entity_name;
             entity_data =
               \<lparr>xn_entity_id = entity_id, xn_name = entity_name,
                xn_kind = py_replace ''Declaration'' [] statement_type, xn_file_id = file_id,
                xn_superClass = None, xn_implements = None, xn_kind_detail = None,
                xn_var_kind = None\<rparr>
         in
         ebind (py_get node ''decorators'' JNull) (\<lambda>decorator_nodes.
         ebind (extract_decorators pe decorator_nodes) (\<lambda>entity_decorators.
           let ex1 = ex\<lparr>x_decorators :=
                          (if entity_decorators \<noteq> []
                           then dict_set entity_id entity_decorators (x_decorators ex)
                           else x_decorators ex),
                        x_entities := dict_set entity_id entity_data (x_entities ex)\<rparr>
           in if statement_type = ''ClassDeclaration''
              then process_class pe file_id entity_data node ex1
              else Inr ex1)))"

definition process_declarator ::
  "pyenv \<Rightarrow> string \<Rightarrow> json \<Rightarrow> json \<Rightarrow> extracted \<Rightarrow> py_error + extracted" where
  "process_declarator pe file_id node declaration ex =
     ebind (py_get declaration ''type'' JNull) (\<lambda>t.
       if t \<noteq> JStr ''VariableDeclarator'' then Inr ex
       else ebind (get_node_name pe declaration) (\<lambda>var_name.
         if \<not> py_truthy var_name then Inr ex
         else
           let entity_id = file_id @ ''::'' @ py_str pe var_name in
           ebind (py_get declaration ''init'' JNull) (\<lambda>init_node.
           ebind (if py_truthy init_node then py_get init_node ''type'' (JStr ''Unknown'')
                  else Inr (JStr ''Unknown'')) (\<lambda>kind_detail.
           ebind (py_get node ''kind'' JNull) (\<lambda>var_kind.
             Inr (ex\<lparr>x_entities :=
                   dict_set entity_id
                     \<lparr>xn_entity_id = entity_id, xn_name = var_name, xn_kind = ''Variable'',
                      xn_file_id = file_id, xn_superClass = None, xn_implements = None,
                      xn_kind_detail = Some kind_detail, xn_var_kind = Some var_kind\<rparr>
                     (x_entities ex)\<rparr>))))))"

definition process_statement ::
  "pyenv \<Rightarrow> string \<Rightarrow> json \<Rightarrow> json \<Rightarrow> extracted \<Rightarrow> py_error + extracted" where
  "process_statement pe file_id source_root node ex =
     ebind (py_get node ''type'' JNull) (\<lambda>statement_type.
       if statement_type = JStr ''ImportDeclaration''
       then process_import_declaration pe source_root node ex
       else if statement_type = JStr ''ExportNamedDeclaration''
       then process_export_named pe node ex
       else if statement_type = JStr ''ExportDefaultDeclaration''
       then process_export_default pe node ex
       else if statement_type = JStr ''ClassDeclaration''
       then process_entity pe file_id ''ClassDeclaration'' node ex
       else if statement_type = JStr ''TSInterfaceDeclaration''
       then process_entity pe file_id ''TSInterfaceDeclaration'' node ex
       else if statement_type = JStr ''FunctionDeclaration''
       then process_entity pe file_id ''FunctionDeclaration'' node ex
       else if statement_type = JStr ''VariableDeclaration''
       then ebind (py_get node ''declarations'' (JArr [])) (\<lambda>declarations.
            ebind (py_iter declarations) (\<lambda>decls.
            foldM (process_declarator pe file_id node) decls ex))
       else Inr ex)"

text \<open>
  \<open>extract_features_from_ast(ast_data, file_path_str, config)\<close>: the record, or \<open>None\<close>,
  with the messages logged; \<open>Inl\<close> when the extraction raises.
\<close>

definition extract_features_from_ast ::
  "pyenv \<Rightarrow> json \<Rightarrow> string \<Rightarrow> json \<Rightarrow> py_error + (extracted option \<times> log_entry list)" where
  "extract_features_from_ast pe ast_data file_path_str config =
     (if \<not> py_truthy ast_data \<or> \<not> is_dict ast_data
      then Inr (None, [Warning (''Invalid or empty AST data for '' @ file_path_str)])
      else
        let relative_path =
              (case relative_to_cwd pe file_path_str of None \<Rightarrow> file_path_str | Some r \<Rightarrow> r);
            file_id = relative_path
        in
        ebind (py_get config ''source_code_root_prefix'' (JStr ''src/'')) (\<lambda>source_root.
        ebind (py_get ast_data ''body'' (JArr [])) (\<lambda>body.
          if \<not> py_truthy body
          then Inr (Some (empty_extracted relative_path),
                    [Warning (''AST body is empty for '' @ path_str pe file_path_str)])
          else ebind (py_iter body) (\<lambda>statements.
               ebind (foldM (process_statement pe file_id source_root) statements
                        (empty_extracted relative_path)) (\<lambda>ex.
               Inr (Some ex, []))))))"

section \<open>The parsing loop of \<open>main\<close>\<close>

text \<open>
  Lines 45 to 59 of \<open>main.py\<close>, on the decoded trees: the dict \<open>all_extracted_data\<close> as
  one file leaves it.  An exception of the extractor is caught and the dict is kept; a
  result that is \<open>None\<close>, or has an empty \<open>file_id\<close>, is not stored.  \<open>Aliased\<close> is no
  exception of the program, so the model stops there.  The messages of the loop are not
  part of this model.
\<close>

definition parse_file ::
  "pyenv \<Rightarrow> json \<Rightarrow> string \<times> json \<Rightarrow> (string \<times> extracted) list
     \<Rightarrow> py_error + (string \<times> extracted) list" where
  "parse_file pe config file all_extracted_data =
     (case extract_features_from_ast pe (snd file) (fst file) config of
        Inl e \<Rightarrow> if e = Aliased then Inl Aliased else Inr all_extracted_data
      | Inr r \<Rightarrow>
          (case fst r of
             None \<Rightarrow> Inr all_extracted_data
           | Some ex \<Rightarrow>
               if x_file_id ex \<noteq> [] then Inr (dict_set (x_file_id ex) ex all_extracted_data)
               else Inr all_extracted_data))"

definition parse_files ::
  "pyenv \<Rightarrow> json \<Rightarrow> (string \<times> json) list \<Rightarrow> py_error + (string \<times> extracted) list" where
  "parse_files pe config ast_files = foldM (parse_file pe config) ast_files []"

section \<open>Notions for the properties of the built graph\<close>

definition edge_at :: "graph \<Rightarrow> string \<Rightarrow> string \<Rightarrow> attrs option" where
  "edge_at G u v = map_of (g_adj G) (u, v)"

text \<open>The identifiers a file brings: its own id, then the ids of its entities and methods.\<close>

definition owner_ids :: "string \<times> file_record \<Rightarrow> string list" where
  "owner_ids fd = fst fd # map fst (fr_entities (snd fd)) @ map fst (fr_methods (snd fd))"

definition all_ids :: "(string \<times> file_record) list \<Rightarrow> string list" where
  "all_ids extracted_data = concat (map owner_ids extracted_data)"

definition external_sources_of :: "file_record \<Rightarrow> string list" where
  "external_sources_of d = map i_source (filter i_is_external (fr_imports d))"

definition external_sources :: "(string \<times> file_record) list \<Rightarrow> string list" where
  "external_sources extracted_data =
     concat (map (\<lambda>fd. external_sources_of (snd fd)) extracted_data)"

text \<open>
  A hypothesis on one record: constructor dependencies are stored under the id of an
  entity of the file, call lists under the id of a method of the file, and the
  \<open>entity_id\<close> of a method, when it has one, is an entity of the file.
\<close>

definition wf_file :: "file_record \<Rightarrow> bool" where
  "wf_file d =
     (list_all (\<lambda>k. k \<in> fst ` set (fr_entities d)) (map fst (fr_dependencies d))
      \<and> list_all (\<lambda>k. k \<in> fst ` set (fr_methods d)) (map fst (fr_calls d))
      \<and> list_all (\<lambda>mm. case m_entity_id (snd mm) of None \<Rightarrow> True
                          | Some e \<Rightarrow> e \<in> fst ` set (fr_entities d)) (fr_methods d))"

text \<open>
  A hypothesis on the input of \<open>build_graph\<close>, which the theorems that need it state: the
  ids of all files, entities and methods are pairwise different, no external import
  source is one of them, no file id is empty, and every record satisfies \<open>wf_file\<close>.
  \<open>build_graph\<close> accepts inputs that do not satisfy it; nodes of all kinds share one
  name space, so on such inputs one \<open>add_node\<close> or \<open>add_edge\<close> can overwrite the type of a
  node or an edge that another step has set (\<open>clash_files\<close> is such an input).
\<close>

definition wf_records :: "(string \<times> file_record) list \<Rightarrow> bool" where
  "wf_records extracted_data =
     (distinct (all_ids extracted_data)
      \<and> list_all (\<lambda>s. s \<notin> set (all_ids extracted_data)) (external_sources extracted_data)
      \<and> list_all (\<lambda>fd. fst fd \<noteq> [] \<and> wf_file (snd fd)) extracted_data)"


text \<open>Containment edges, and the paths made of them.\<close>

definition contains_edge :: "graph \<Rightarrow> string \<Rightarrow> string \<Rightarrow> bool" where
  "contains_edge G u v =
     (edge_type G u v = Some ''CONTAINS'' \<or> edge_type G u v = Some ''CONTAINS_FUNC''
      \<or> edge_type G u v = Some ''HAS_METHOD'')"

definition reach :: "graph \<Rightarrow> string \<Rightarrow> string \<Rightarrow> bool" where
  "reach G = (contains_edge G)\<^sup>*\<^sup>*"


text \<open>Invariants of the two phases, relative to the input.\<close>

definition typed_ok :: "(string \<times> file_record) list \<Rightarrow> string \<Rightarrow> string option \<Rightarrow> bool" where
  "typed_ok fs n t =
     ((n \<in> fst ` set fs \<and> t = Some ''File'')
      \<or> ((\<exists>fd \<in> set fs. n \<in> fst ` set (fr_entities (snd fd))) \<and> (\<exists>k. t = Some (kind_str k)))
      \<or> ((\<exists>fd \<in> set fs. n \<in> fst ` set (fr_methods (snd fd))) \<and> t = Some ''Method'')
      \<or> (n \<in> set (external_sources fs) \<and> t = Some ''External''))"

definition shape :: "(string \<times> file_record) list \<Rightarrow> string \<Rightarrow> string \<Rightarrow> bool" where
  "shape fs u v =
     (\<exists>fd \<in> set fs.
        (u = fst fd \<and> (v \<in> fst ` set (fr_entities (snd fd)) \<or> v \<in> fst ` set (fr_methods (snd fd))))
        \<or> (u \<in> fst ` set (fr_entities (snd fd)) \<and> v \<in> fst ` set (fr_methods (snd fd))))"

definition graph_inv :: "(string \<times> file_record) list \<Rightarrow> graph \<Rightarrow> bool" where
  "graph_inv fs G =
     ((\<forall>n. has_node G n \<longrightarrow> typed_ok fs n (node_type G n))
      \<and> (\<forall>u v. contains_edge G u v \<longrightarrow> shape fs u v)
      \<and> (\<forall>fd \<in> set fs. \<forall>n \<in> set (tl (owner_ids fd)).
            has_node G n \<longrightarrow> has_node G (fst fd) \<and> reach G (fst fd) n))"

text \<open>A step that leaves the node attributes and the set of processed sources as they are.\<close>

definition nodes_kept :: "bstate \<Rightarrow> bstate \<Rightarrow> bool" where
  "nodes_kept st st' =
     (st_processed_external_imports st' = st_processed_external_imports st
      \<and> (\<forall>n. node_type (st_graph st') n = node_type (st_graph st) n)
      \<and> (distinct (map fst (g_node (st_graph st)))
           \<longrightarrow> distinct (map fst (g_node (st_graph st')))))"

definition external_inv :: "bstate \<Rightarrow> bool" where
  "external_inv st =
     (distinct (map fst (g_node (st_graph st)))
      \<and> (\<forall>n. (node_type (st_graph st) n = Some ''External'')
             = (n \<in> set (st_processed_external_imports st))))"

definition no_external :: "graph \<Rightarrow> bool" where
  "no_external G = (distinct (map fst (g_node G)) \<and> (\<forall>n. node_type G n \<noteq> Some ''External''))"

definition edge_inv :: "(string \<times> file_record) list \<Rightarrow> bstate \<Rightarrow> bool" where
  "edge_inv fs st =
     (graph_inv fs (st_graph st) \<and> (\<forall>fd \<in> set fs. has_node (st_graph st) (fst fd))
      \<and> external_inv st)"


text \<open>The nodes of type \<open>File\<close>, in the order of the node dict.\<close>

definition file_nodes :: "graph \<Rightarrow> string list" where
  "file_nodes G = filter (\<lambda>n. node_type G n = Some ''File'') (map fst (g_node G))"

text \<open>
  How a containment edge of type \<open>t\<close> from \<open>u\<close> to \<open>v\<close> sits in the input: a \<open>CONTAINS\<close>
  edge joins a file to one of its entities, a \<open>HAS_METHOD\<close> edge joins the entity that a
  method names as its \<open>entity_id\<close> to that method, and a \<open>CONTAINS_FUNC\<close> edge joins a file
  to one of its methods that names no entity.
\<close>

definition hangs :: "(string \<times> file_record) list \<Rightarrow> string option \<Rightarrow> string \<Rightarrow> string \<Rightarrow> bool" where
  "hangs fs t u v =
     (\<exists>fd \<in> set fs.
        (t = Some ''CONTAINS'' \<and> u = fst fd \<and> v \<in> fst ` set (fr_entities (snd fd)))
        \<or> (\<exists>mm \<in> set (fr_methods (snd fd)). v = fst mm \<and>
              ((t = Some ''HAS_METHOD'' \<and> truthy (m_entity_id (snd mm))
                  \<and> m_entity_id (snd mm) = Some u)
               \<or> (t = Some ''CONTAINS_FUNC'' \<and> \<not> truthy (m_entity_id (snd mm))
                  \<and> u = fst fd))))"

definition hang_inv :: "(string \<times> file_record) list \<Rightarrow> graph \<Rightarrow> bool" where
  "hang_inv fs G = (\<forall>u v. contains_edge G u v \<longrightarrow> hangs fs (edge_type G u v) u v)"


section \<open>Properties of extracted records\<close>

text \<open>
  The classification of an import: external unless the source starts with a dot, with
  a slash, or with the configured root prefix (a value that is not a string is no
  prefix).
\<close>

definition starts_with_root :: "json \<Rightarrow> string \<Rightarrow> bool" where
  "starts_with_root source_root s =
     (case source_root of JStr r \<Rightarrow> py_startswith s r | _ \<Rightarrow> False)"

definition classified :: "json \<Rightarrow> x_import \<Rightarrow> bool" where
  "classified source_root i =
     (xi_is_external i =
        (\<not> (py_startswith (xi_source i) ''.'' \<or> py_startswith (xi_source i) ''/''
             \<or> starts_with_root source_root (xi_source i))))"



text \<open>
  The shape of a tree that \<open>get_type_annotation_str\<close> is meant for.  Each mapping is read
  in one role, and its role fixes which of its fields are navigated and what they must
  hold:

  \<^item> \<open>Holder\<close>, the argument of the function: \<open>typeAnnotation\<close> is absent, falsy or a mapping
    (an \<open>Annotation\<close>); \<open>parameter\<close> and \<open>id\<close>, when present, are mappings (\<open>Carrier\<close>);

  \<^item> \<open>Carrier\<close>: \<open>typeAnnotation\<close>, when present, is a mapping (\<open>Wrapper\<close>), whose own
    \<open>typeAnnotation\<close> is absent, falsy or a mapping (an \<open>Annotation\<close>);

  \<^item> \<open>Annotation\<close>, the node whose \<open>type\<close> is tested: \<open>typeName\<close> and \<open>elementType\<close> are
    absent, falsy or a mapping (a \<open>Name\<close>, a \<open>Holder\<close>); \<open>typeArguments\<close>, when present, is a
    mapping (\<open>Arguments\<close>) whose \<open>params\<close> is falsy or a list of holders; \<open>types\<close> and
    \<open>elementTypes\<close>, when present, are lists of holders;

  \<^item> \<open>Name\<close>, the argument of \<open>get_node_name\<close>: \<open>name\<close> is absent, falsy or a string;
    \<open>object\<close>, \<open>property\<close> and \<open>key\<close> are absent, falsy or a mapping (a \<open>Name\<close>); \<open>id\<close>, when
    present, is a mapping (\<open>NameCarrier\<close>) whose \<open>name\<close> is absent, falsy or a string.

  Every other field is \<open>Free\<close>: it may hold anything.  A holder in a list is falsy or a
  mapping.
\<close>

datatype role = Holder | Carrier | Wrapper | Annotation | Arguments | Name | NameCarrier | Free

definition node_or_none :: "json \<Rightarrow> bool" where
  "node_or_none v = (\<not> py_truthy v \<or> is_dict v)"

fun nodes_or_none :: "json \<Rightarrow> bool" where
  "nodes_or_none (JArr xs) = list_all node_or_none xs"
| "nodes_or_none _ = False"

fun string_or_none :: "json \<Rightarrow> bool" where
  "string_or_none (JStr s) = True"
| "string_or_none v = (\<not> py_truthy v)"

fun child_role :: "role \<Rightarrow> string \<Rightarrow> role" where
  "child_role Holder k =
     (if k = ''typeAnnotation'' then Annotation
      else if k = ''parameter'' \<or> k = ''id'' then Carrier else Free)"
| "child_role Carrier k = (if k = ''typeAnnotation'' then Wrapper else Free)"
| "child_role Wrapper k = (if k = ''typeAnnotation'' then Annotation else Free)"
| "child_role Annotation k =
     (if k = ''typeName'' then Name
      else if k = ''typeArguments'' then Arguments
      else if k = ''types'' \<or> k = ''elementTypes'' \<or> k = ''elementType'' then Holder
      else Free)"
| "child_role Arguments k = (if k = ''params'' then Holder else Free)"
| "child_role Name k =
     (if k = ''object'' \<or> k = ''property'' \<or> k = ''key'' then Name
      else if k = ''id'' then NameCarrier else Free)"
| "child_role NameCarrier k = Free"
| "child_role Free k = Free"

fun field_shape :: "role \<Rightarrow> string \<Rightarrow> json \<Rightarrow> bool" where
  "field_shape Holder k v =
     (if k = ''typeAnnotation'' then node_or_none v
      else if k = ''parameter'' \<or> k = ''id'' then is_dict v else True)"
| "field_shape Carrier k v = (if k = ''typeAnnotation'' then is_dict v else True)"
| "field_shape Wrapper k v = (if k = ''typeAnnotation'' then node_or_none v else True)"
| "field_shape Annotation k v =
     (if k = ''typeName'' \<or> k = ''elementType'' then node_or_none v
      else if k = ''typeArguments'' then is_dict v
      else if k = ''types'' \<or> k = ''elementTypes'' then nodes_or_none v
      else True)"
| "field_shape Arguments k v =
     (if k = ''params'' then \<not> py_truthy v \<or> nodes_or_none v else True)"
| "field_shape Name k v =
     (if k = ''name'' then string_or_none v
      else if k = ''object'' \<or> k = ''property'' \<or> k = ''key'' then node_or_none v
      else if k = ''id'' then is_dict v else True)"
| "field_shape NameCarrier k v = (if k = ''name'' then string_or_none v else True)"
| "field_shape Free k v = True"

fun shaped :: "role \<Rightarrow> json \<Rightarrow> bool" and shaped_list :: "role \<Rightarrow> json list \<Rightarrow> bool"
  and shaped_fields :: "role \<Rightarrow> (string \<times> json) list \<Rightarrow> bool" where
  "shaped r (JObj kvs) = shaped_fields r kvs"
| "shaped r (JArr xs) = shaped_list r xs"
| "shaped r JNull = True"
| "shaped r (JBool b) = True"
| "shaped r (JInt i) = True"
| "shaped r (JFloat x) = True"
| "shaped r (JStr s) = True"
| "shaped_list r [] = True"
| "shaped_list r (x # xs) = (shaped r x \<and> shaped_list r xs)"
| "shaped_fields r [] = True"
| "shaped_fields r (kv # kvs) =
     (field_shape r (fst kv) (snd kv) \<and> shaped (child_role r (fst kv)) (snd kv)
      \<and> shaped_fields r kvs)"

definition annotation_node :: "json \<Rightarrow> bool" where
  "annotation_node node = (node_or_none node \<and> shaped Holder node)"

section \<open>Concrete inputs\<close>

text \<open>
  An environment for files that sit in the working directory and import nothing
  internal: \<open>Path(p).name\<close> is the text after the last slash, and no candidate path is
  probed.
\<close>

definition basename :: "string \<Rightarrow> string" where
  "basename p = rev (takeWhile (\<lambda>c. c \<noteq> CHR ''/'') (rev p))"

definition no_probes :: "string \<Rightarrow> string \<Rightarrow> probe list option" where
  "no_probes p s = Some []"

definition flat_env :: env where
  "flat_env = \<lparr>path_name = basename, path_probes = no_probes\<rparr>"

text \<open>The two components of a finished run (the empty graph and no messages when it raised).\<close>

definition built_graph :: "py_error + (graph \<times> log_entry list) \<Rightarrow> graph" where
  "built_graph r = (case r of Inl e \<Rightarrow> empty_graph | Inr p \<Rightarrow> fst p)"

definition built_log :: "py_error + (graph \<times> log_entry list) \<Rightarrow> log_entry list" where
  "built_log r = (case r of Inl e \<Rightarrow> [] | Inr p \<Rightarrow> snd p)"

definition is_debug :: "log_entry \<Rightarrow> bool" where
  "is_debug l = (case l of Debug m \<Rightarrow> True | _ \<Rightarrow> False)"

text \<open>
  \<open>a.ts\<close> declares class \<open>A\<close> with the one method \<open>m\<close>, whose body calls \<open>this.n()\<close>;
  \<open>A\<close> has no method \<open>n\<close>.
\<close>

definition this_call_files :: "(string \<times> file_record) list" where
  "this_call_files =
     [(''a.ts'',
       \<lparr>fr_file_path = ''a.ts'', fr_imports = [],
        fr_entities = [(''a.ts::A'', \<lparr>e_name = ''A'', e_kind = Class, e_description = None\<rparr>)],
        fr_methods = [(''a.ts::A::m'', \<lparr>m_name = ''m'', m_kind = ''method'',
                        m_entity_id = Some ''a.ts::A'', m_summary = None\<rparr>)],
        fr_calls = [(''a.ts::A::m'', [\<lparr>c_base_expression = Some ''this'',
                        c_called_method_name = ''n'', c_is_await = False\<rparr>])],
        fr_dependencies = []\<rparr>)]"

text \<open>
  \<open>a.ts\<close> and \<open>b.ts\<close> each declare a class \<open>B\<close> with a method \<open>go\<close>.  In \<open>b.ts\<close>, class
  \<open>A\<close> takes the constructor parameter property \<open>b: B\<close> and its method \<open>useB\<close> calls
  \<open>this.b.go()\<close>, which the extractor records with base expression \<open>b\<close>.
\<close>

definition shadowed_files :: "(string \<times> file_record) list" where
  "shadowed_files =
     [(''a.ts'',
       \<lparr>fr_file_path = ''a.ts'', fr_imports = [],
        fr_entities = [(''a.ts::B'', \<lparr>e_name = ''B'', e_kind = Class, e_description = None\<rparr>)],
        fr_methods = [(''a.ts::B::go'', \<lparr>m_name = ''go'', m_kind = ''method'',
                        m_entity_id = Some ''a.ts::B'', m_summary = None\<rparr>)],
        fr_calls = [], fr_dependencies = []\<rparr>),
      (''b.ts'',
       \<lparr>fr_file_path = ''b.ts'', fr_imports = [],
        fr_entities = [(''b.ts::B'', \<lparr>e_name = ''B'', e_kind = Class, e_description = None\<rparr>),
                       (''b.ts::A'', \<lparr>e_name = ''A'', e_kind = Class, e_description = None\<rparr>)],
        fr_methods = [(''b.ts::B::go'', \<lparr>m_name = ''go'', m_kind = ''method'',
                        m_entity_id = Some ''b.ts::B'', m_summary = None\<rparr>),
                      (''b.ts::A::useB'', \<lparr>m_name = ''useB'', m_kind = ''method'',
                        m_entity_id = Some ''b.ts::A'', m_summary = None\<rparr>)],
        fr_calls = [(''b.ts::A::useB'', [\<lparr>c_base_expression = Some ''b'',
                        c_called_method_name = ''go'', c_is_await = False\<rparr>])],
        fr_dependencies = [(''b.ts::A'', [\<lparr>d_name = ''b'', d_type = ''B''\<rparr>])]\<rparr>)]"

definition shadowed_b :: file_record where
  "shadowed_b = snd (shadowed_files ! 1)"

definition shadowed_call :: call_rec where
  "shadowed_call = \<lparr>c_base_expression = Some ''b'', c_called_method_name = ''go'',
                     c_is_await = False\<rparr>"






text \<open>
  The file \<open>x.json\<close> declares the class \<open>A\<close> and imports from a package that is also
  called \<open>x.json\<close>: an external import source that is the id of a file.
\<close>

definition clash_files :: "(string \<times> file_record) list" where
  "clash_files =
     [(''x.json'',
       \<lparr>fr_file_path = ''x.json'',
        fr_imports = [\<lparr>i_source = ''x.json'', i_specifiers = [''x''], i_is_external = True\<rparr>],
        fr_entities = [(''x.json::A'', \<lparr>e_name = ''A'', e_kind = Class, e_description = None\<rparr>)],
        fr_methods = [], fr_calls = [], fr_dependencies = []\<rparr>)]"






section \<open>Concrete syntax trees\<close>

text \<open>
  An environment for runs that are started with relative paths, on trees whose names
  are strings: \<open>relative_to\<close> raises for every path, a path prints as it is written, two
  values are equal when they are the same, and no list or dict is ever formatted.
\<close>

definition plain_env :: pyenv where
  "plain_env =
     \<lparr>str_of_container = (\<lambda>x. ''<container>''), py_repr = (\<lambda>x. ''<repr>''),
      py_equal = (\<lambda>x y. x = y), path_str = (\<lambda>p. p), relative_to_cwd = (\<lambda>p. None)\<rparr>"

definition ident_node :: "string \<Rightarrow> json" where
  "ident_node n = JObj [(''type'', JStr ''Identifier''), (''name'', JStr n)]"

definition program_tree :: "json list \<Rightarrow> json" where
  "program_tree statements = JObj [(''type'', JStr ''Program''), (''body'', JArr statements)]"

definition import_declaration :: "string \<Rightarrow> json list \<Rightarrow> json" where
  "import_declaration source specifiers =
     JObj [(''type'', JStr ''ImportDeclaration''),
           (''source'', JObj [(''type'', JStr ''Literal''), (''value'', JStr source)]),
           (''specifiers'', JArr specifiers)]"

text \<open>
  The specifier of \<open>import n from '...'\<close> and the one of \<open>import { n } from '...'\<close>, as the
  parser emits them.
\<close>

definition default_specifier :: "string \<Rightarrow> json" where
  "default_specifier n =
     JObj [(''type'', JStr ''ImportDefaultSpecifier''), (''local'', ident_node n)]"

definition named_specifier :: "string \<Rightarrow> json" where
  "named_specifier n =
     JObj [(''type'', JStr ''ImportSpecifier''), (''local'', ident_node n),
           (''imported'', ident_node n)]"

text \<open>\<open>import React from 'react'\<close> as a whole file.\<close>

definition default_import_tree :: json where
  "default_import_tree = program_tree [import_declaration ''react'' [default_specifier ''React'']]"

text \<open>The record of a finished extraction (the empty record when there is none).\<close>

definition extracted_record :: "py_error + (extracted option \<times> log_entry list) \<Rightarrow> extracted" where
  "extracted_record r =
     (case r of Inl e \<Rightarrow> empty_extracted []
      | Inr p \<Rightarrow> (case fst p of None \<Rightarrow> empty_extracted [] | Some ex \<Rightarrow> ex))"

text \<open>
  A file with the three statements \<open>import { x } from './x'\<close>,
  \<open>import { app } from 'src/app'\<close> and \<open>import { map } from 'lodash'\<close>.
\<close>

definition mixed_imports_tree :: json where
  "mixed_imports_tree =
     program_tree [import_declaration ''./x'' [named_specifier ''x''],
                   import_declaration ''src/app'' [named_specifier ''app''],
                   import_declaration ''lodash'' [named_specifier ''map'']]"

text \<open>The tree and the calls of a walk that returned (\<open>None\<close> and no call when it raised).\<close>

definition walked :: "py_error + (json \<times> x_call list) \<Rightarrow> json \<times> x_call list" where
  "walked r = (case r of Inl e \<Rightarrow> (JNull, []) | Inr p \<Rightarrow> p)"






section \<open>Properties of the graph operations\<close>

subsection \<open>The graph as two finite maps\<close>

lemma map_of_dict_update:
  "map_of (dict_update d new) k =
     (case map_of (rev new) k of None \<Rightarrow> map_of d k | Some v \<Rightarrow> Some v)"
proof (induction new arbitrary: d)
  case Nil
  then show ?case by (simp add: dict_update_def)
next
  case (Cons x xs)
  have "dict_update d (x # xs) = dict_update (AList.update (fst x) (snd x) d) xs"
    by (simp add: dict_update_def)
  then show ?case
    using Cons.IH [of "AList.update (fst x) (snd x) d"]
    by (cases x) (auto simp: update_conv' map_add_def split: option.splits)
qed

lemma has_node_add_node [simp]: "has_node (add_node G n a) m = (m = n \<or> has_node G m)"
  by (auto simp: has_node_def add_node_def update_conv')

lemma g_adj_add_node [simp]: "g_adj (add_node G n a) = g_adj G"
  by (simp add: add_node_def)

lemma node_attr_add_node:
  "node_attr (add_node G n a) m k =
     (if m = n then (case map_of (rev a) k of None \<Rightarrow> node_attr G n k | Some v \<Rightarrow> v)
      else node_attr G m k)"
  by (auto simp: node_attr_def add_node_def update_conv' map_of_dict_update split: option.splits)

lemma has_node_touch [simp]: "has_node (touch_node G n) m = (m = n \<or> has_node G m)"
  by (auto simp: has_node_def touch_node_def map_add_def split: option.splits)

lemma has_node_g_adj_update [simp]: "has_node (G\<lparr>g_adj := x\<rparr>) m = has_node G m"
  by (simp add: has_node_def)

lemma node_attr_g_adj_update [simp]: "node_attr (G\<lparr>g_adj := x\<rparr>) m k = node_attr G m k"
  by (simp add: node_attr_def)

lemma node_attr_touch [simp]: "node_attr (touch_node G n) m k = node_attr G m k"
  by (auto simp: node_attr_def touch_node_def has_node_def map_add_def split: option.splits)

lemma g_adj_touch [simp]: "g_adj (touch_node G n) = g_adj G"
  by (simp add: touch_node_def)

lemma touch_node_id [simp]: "has_node G n \<Longrightarrow> touch_node G n = G"
  by (simp add: touch_node_def)

lemma has_node_add_edge [simp]:
  "has_node (add_edge G u v a) m = (m = u \<or> m = v \<or> has_node G m)"
  by (auto simp: add_edge_def Let_def)

lemma node_attr_add_edge [simp]: "node_attr (add_edge G u v a) m k = node_attr G m k"
  by (simp add: add_edge_def Let_def)

lemma edge_at_add_node [simp]: "edge_at (add_node G n a) x y = edge_at G x y"
  by (simp add: edge_at_def)

lemma edge_at_add_edge:
  "edge_at (add_edge G u v a) x y =
     (if x = u \<and> y = v
      then Some (dict_update (case edge_at G u v of None \<Rightarrow> [] | Some old \<Rightarrow> old) a)
      else edge_at G x y)"
  by (auto simp: edge_at_def add_edge_def Let_def update_conv')

lemma edge_attr_add_node [simp]: "edge_attr (add_node G n a) x y k = edge_attr G x y k"
  by (simp add: edge_attr_def)

lemma edge_attr_add_edge:
  "edge_attr (add_edge G u v a) x y k =
     (if x = u \<and> y = v
      then (case map_of (rev a) k of None \<Rightarrow> edge_attr G u v k | Some w \<Rightarrow> w)
      else edge_attr G x y k)"
  by (auto simp: edge_attr_def add_edge_def Let_def update_conv' map_of_dict_update
      split: option.splits)

lemma has_edge_add_edge [simp]:
  "has_edge (add_edge G u v a) x y = ((x = u \<and> y = v) \<or> has_edge G x y)"
  by (auto simp: has_edge_def add_edge_def Let_def update_conv')

lemma distinct_add_node:
  "distinct (map fst (g_node G)) \<Longrightarrow> distinct (map fst (g_node (add_node G n a)))"
  by (simp add: add_node_def distinct_update)

lemma distinct_touch:
  "distinct (map fst (g_node G)) \<Longrightarrow> distinct (map fst (g_node (touch_node G n)))"
  by (auto simp: touch_node_def has_node_def map_of_eq_None_iff)

lemma distinct_add_edge:
  "distinct (map fst (g_node G)) \<Longrightarrow> distinct (map fst (g_node (add_edge G u v a)))"
  by (simp add: add_edge_def Let_def distinct_touch)

lemma node_type_add_edge [simp]: "node_type (add_edge G u v a) m = node_type G m"
  by (simp add: node_type_def)

lemma edge_type_add_node [simp]: "edge_type (add_node G n a) x y = edge_type G x y"
  by (simp add: edge_type_def)

lemma node_type_file [simp]:
  "node_type (add_node G n (file_attrs ev d)) m = (if m = n then Some ''File'' else node_type G m)"
  by (simp add: node_type_def node_attr_add_node file_attrs_def)

lemma node_type_entity [simp]:
  "node_type (add_node G n (entity_attrs f e)) m =
     (if m = n then Some (kind_str (e_kind e)) else node_type G m)"
  by (simp add: node_type_def node_attr_add_node entity_attrs_def)

lemma node_type_method [simp]:
  "node_type (add_node G n (method_attrs f mr)) m =
     (if m = n then Some ''Method'' else node_type G m)"
  by (simp add: node_type_def node_attr_add_node method_attrs_def)

lemma node_type_external [simp]:
  "node_type (add_node G n [(''type'', Some ''External''), (''label'', Some l), (''title'', Some t)]) m
     = (if m = n then Some ''External'' else node_type G m)"
  by (simp add: node_type_def node_attr_add_node)

lemma edge_type_add_edge1 [simp]:
  "edge_type (add_edge G u v [(''type'', Some t)]) x y =
     (if x = u \<and> y = v then Some t else edge_type G x y)"
  by (simp add: edge_type_def edge_attr_add_edge)

lemma edge_type_add_edge2 [simp]:
  "edge_type (add_edge G u v [(''type'', Some t), (''label'', l)]) x y =
     (if x = u \<and> y = v then Some t else edge_type G x y)"
  by (simp add: edge_type_def edge_attr_add_edge)

lemma edge_label_add_edge2 [simp]:
  "edge_attr (add_edge G u v [(''type'', Some t), (''label'', l)]) x y ''label'' =
     (if x = u \<and> y = v then l else edge_attr G x y ''label'')"
  by (simp add: edge_attr_add_edge)

lemma kind_str_not_special [simp]:
  "kind_str k \<noteq> ''File''" "kind_str k \<noteq> ''Method''" "kind_str k \<noteq> ''External''"
  "''File'' \<noteq> kind_str k" "''Method'' \<noteq> kind_str k" "''External'' \<noteq> kind_str k"
  by (cases k; simp)+

subsection \<open>Loops and their invariants\<close>

lemma fold_prefix_inv:
  assumes "P [] s"
    and "\<And>pre x post t. xs = pre @ x # post \<Longrightarrow> P pre t \<Longrightarrow> P (pre @ [x]) (f x t)"
  shows "P xs (fold f xs s)"
proof -
  have "P pre t \<Longrightarrow> xs = pre @ ys \<Longrightarrow> P (pre @ ys) (fold f ys t)" for pre ys t
  proof (induction ys arbitrary: pre t)
    case Nil
    then show ?case by simp
  next
    case (Cons y ys)
    have "P (pre @ [y]) (f y t)"
      using assms(2) [of pre y ys t] Cons.prems by simp
    from Cons.IH [OF this] Cons.prems(2) show ?case by simp
  qed
  from this [of "[]" s xs] assms(1) show ?thesis by simp
qed

lemma fold_inv:
  assumes "P s" and "\<And>x t. x \<in> set xs \<Longrightarrow> P t \<Longrightarrow> P (f x t)"
  shows "P (fold f xs s)"
  using assms by (induction xs arbitrary: s) auto

lemma foldM_prefix_inv:
  assumes "foldM f xs s = Inr s'" and "P [] s"
    and "\<And>pre x post t t'. xs = pre @ x # post \<Longrightarrow> P pre t \<Longrightarrow> f x t = Inr t'
           \<Longrightarrow> P (pre @ [x]) t'"
  shows "P xs s'"
proof -
  have "P pre t \<Longrightarrow> xs = pre @ ys \<Longrightarrow> foldM f ys t = Inr s' \<Longrightarrow> P (pre @ ys) s'" for pre ys t
  proof (induction ys arbitrary: pre t)
    case Nil
    then show ?case by simp
  next
    case (Cons y ys)
    from Cons.prems(3) obtain t' where t': "f y t = Inr t'" and rest: "foldM f ys t' = Inr s'"
      by (auto split: sum.splits)
    have "P (pre @ [y]) t'"
      using assms(3) [of pre y ys t t'] Cons.prems t' by simp
    from Cons.IH [OF this _ rest] Cons.prems(2) show ?case by simp
  qed
  from this [of "[]" s xs] assms(1,2) show ?thesis by simp
qed

lemma foldM_inv:
  assumes "foldM f xs s = Inr s'" and "P s"
    and "\<And>x t t'. x \<in> set xs \<Longrightarrow> P t \<Longrightarrow> f x t = Inr t' \<Longrightarrow> P t'"
  shows "P s'"
proof (rule foldM_prefix_inv [of f xs s s' "\<lambda>pre. P", OF assms(1,2)])
  fix pre x post t t'
  assume "xs = pre @ x # post" and "P t" and "f x t = Inr t'"
  then show "P t'"
    using assms(3) [of x t t'] by simp
qed

subsection \<open>External nodes\<close>

lemma nodes_kept_refl [simp]: "nodes_kept st st"
  by (simp add: nodes_kept_def)


lemma nodes_kept_log [simp]: "nodes_kept st (log_debug m st)"
  by (simp add: nodes_kept_def log_debug_def)

lemma nodes_kept_add_edge [simp]:
  "nodes_kept st (st\<lparr>st_graph := add_edge (st_graph st) u v a\<rparr>)"
  by (simp add: nodes_kept_def distinct_add_edge)






lemma external_inv_kept: "external_inv st \<Longrightarrow> nodes_kept st st' \<Longrightarrow> external_inv st'"
  by (simp add: external_inv_def nodes_kept_def)

lemma process_import_external:
  assumes "process_import ev ids fid d imp st = Inr st'" and "i_is_external imp"
  shows "st_graph st' =
           add_edge (if i_source imp \<in> set (st_processed_external_imports st) then st_graph st
                     else add_node (st_graph st) (i_source imp)
                       [(''type'', Some ''External''), (''label'', Some (i_source imp)),
                        (''title'', Some (''External Library: '' @ i_source imp))])
             fid (i_source imp)
             [(''type'', Some ''IMPORTS_EXT''),
              (''label'', Some (py_join '', '' (i_specifiers imp)))]"
    and "st_processed_external_imports st' =
           (if i_source imp \<in> set (st_processed_external_imports st)
            then st_processed_external_imports st
            else i_source imp # st_processed_external_imports st)"
  using assms by (auto simp: process_import_def Let_def)

lemma process_import_internal:
  assumes "process_import ev ids fid d imp st = Inr st'" and "\<not> i_is_external imp"
  shows "\<exists>t lg. resolve_internal_path ev (fr_file_path d) (i_source imp) ids = Inr (t, lg)
           \<and> st_processed_external_imports st' = st_processed_external_imports st
           \<and> st_graph st' =
               (if truthy t \<and> has_node_opt (st_graph st) t
                then add_edge (st_graph st) fid (case t of None \<Rightarrow> [] | Some x \<Rightarrow> x)
                       [(''type'', Some ''IMPORTS_INT''),
                        (''label'', Some (path_name ev (i_source imp)))]
                else st_graph st)"
proof -
  from assms obtain t lg
    where r: "resolve_internal_path ev (fr_file_path d) (i_source imp) ids = Inr (t, lg)"
    by (cases "resolve_internal_path ev (fr_file_path d) (i_source imp) ids")
      (auto simp: process_import_def Let_def)
  show ?thesis
  proof (cases "truthy t \<and> has_node_opt (st_graph st) t")
    case True
    then obtain x where x: "t = Some x" by (cases t) auto
    from assms r True x
    have "st_processed_external_imports st' = st_processed_external_imports st"
      and "st_graph st' = add_edge (st_graph st) fid x
             [(''type'', Some ''IMPORTS_INT''), (''label'', Some (path_name ev (i_source imp)))]"
      by (auto simp: process_import_def Let_def)
    with r True x show ?thesis by simp
  next
    case False
    from assms r False
    have "st_processed_external_imports st' = st_processed_external_imports st"
      and "st_graph st' = st_graph st"
      by (auto simp: process_import_def Let_def log_debug_def)
    with r False show ?thesis by auto
  qed
qed

lemma process_import_external_inv:
  assumes "process_import ev ids fid d imp st = Inr st'" and "external_inv st"
  shows "external_inv st'
         \<and> set (st_processed_external_imports st') =
             set (st_processed_external_imports st)
             \<union> (if i_is_external imp then {i_source imp} else {})"
proof (cases "i_is_external imp")
  case True
  note ext = process_import_external [OF assms(1) True]
  show ?thesis
  proof (cases "i_source imp \<in> set (st_processed_external_imports st)")
    case seen: True
    have "nodes_kept st st'"
      using ext seen by (simp add: nodes_kept_def distinct_add_edge)
    then show ?thesis
      using assms(2) True seen ext(2) by (auto intro: external_inv_kept)
  next
    case new: False
    have d: "distinct (map fst (g_node (st_graph st')))"
      using ext(1) new assms(2)
      by (simp add: external_inv_def distinct_add_edge distinct_add_node)
    have t: "node_type (st_graph st') n =
               (if n = i_source imp then Some ''External'' else node_type (st_graph st) n)" for n
      using ext(1) new by simp
    show ?thesis
      using d t ext(2) new assms(2) True by (auto simp: external_inv_def)
  qed
next
  case False
  from process_import_internal [OF assms(1) False]
  have "nodes_kept st st'"
    by (auto simp: nodes_kept_def distinct_add_edge)
  then show ?thesis
    using assms(2) False by (auto intro: external_inv_kept simp: nodes_kept_def)
qed

lemma no_external_add_entity: "no_external G \<Longrightarrow> no_external (add_entity f ee G)"
  by (simp add: no_external_def add_entity_def distinct_add_edge distinct_add_node)

lemma no_external_add_method: "no_external G \<Longrightarrow> no_external (add_method f mm G)"
  by (simp add: no_external_def add_method_def Let_def distinct_add_edge distinct_add_node
      split: option.splits)

lemma no_external_add_file_nodes: "no_external G \<Longrightarrow> no_external (add_file_nodes ev fd G)"
  unfolding add_file_nodes_def
  by (intro fold_inv [where P = no_external] no_external_add_entity no_external_add_method)
    (simp add: no_external_def distinct_add_node)

lemma no_external_node_phase: "no_external (node_phase ev fs)"
  unfolding node_phase_def
  by (intro fold_inv [where P = no_external] no_external_add_file_nodes)
    (simp add: no_external_def empty_graph_def node_type_def node_attr_def)






subsection \<open>Well-formed records\<close>

lemma owner_ids_in_all: "fd \<in> set fs \<Longrightarrow> x \<in> set (owner_ids fd) \<Longrightarrow> x \<in> set (all_ids fs)"
  by (auto simp: all_ids_def)

lemma owner_distinct: "distinct (all_ids fs) \<Longrightarrow> fd \<in> set fs \<Longrightarrow> distinct (owner_ids fd)"
  by (induction fs) (auto simp: all_ids_def)

lemma owner_unique:
  "distinct (all_ids fs) \<Longrightarrow> fd1 \<in> set fs \<Longrightarrow> fd2 \<in> set fs
     \<Longrightarrow> x \<in> set (owner_ids fd1) \<Longrightarrow> x \<in> set (owner_ids fd2) \<Longrightarrow> fd1 = fd2"
proof (induction fs)
  case Nil
  then show ?case by simp
next
  case (Cons a fs)
  have d: "distinct (all_ids fs)" and disj: "set (owner_ids a) \<inter> set (all_ids fs) = {}"
    using Cons.prems(1) by (auto simp: all_ids_def)
  show ?case
  proof (cases "fd1 = a")
    case True
    show ?thesis
    proof (cases "fd2 = a")
      case True
      with \<open>fd1 = a\<close> show ?thesis by simp
    next
      case False
      with Cons.prems have "fd2 \<in> set fs" by simp
      from this Cons.prems(5) have "x \<in> set (all_ids fs)" by (rule owner_ids_in_all)
      with disj \<open>fd1 = a\<close> Cons.prems(4) show ?thesis by auto
    qed
  next
    case False
    with Cons.prems have in1: "fd1 \<in> set fs" by simp
    show ?thesis
    proof (cases "fd2 = a")
      case True
      from in1 Cons.prems(4) have "x \<in> set (all_ids fs)" by (rule owner_ids_in_all)
      with disj True Cons.prems(5) show ?thesis by auto
    next
      case False
      with Cons.prems have "fd2 \<in> set fs" by simp
      from Cons.IH [OF d in1 this Cons.prems(4,5)] show ?thesis .
    qed
  qed
qed

lemma wf_distinct: "wf_records fs \<Longrightarrow> distinct (all_ids fs)"
  by (simp add: wf_records_def)

lemma wf_external: "wf_records fs \<Longrightarrow> s \<in> set (external_sources fs) \<Longrightarrow> s \<notin> set (all_ids fs)"
  by (auto simp: wf_records_def list_all_iff)

lemma wf_file_id: "wf_records fs \<Longrightarrow> fd \<in> set fs \<Longrightarrow> fst fd \<noteq> []"
  by (auto simp: wf_records_def list_all_iff)

lemma wf_wf_file: "wf_records fs \<Longrightarrow> fd \<in> set fs \<Longrightarrow> wf_file (snd fd)"
  by (auto simp: wf_records_def list_all_iff)

lemma file_in_owner [simp]: "fst fd \<in> set (owner_ids fd)"
  by (simp add: owner_ids_def)

lemma entity_in_owner: "e \<in> fst ` set (fr_entities (snd fd)) \<Longrightarrow> e \<in> set (owner_ids fd)"
  by (auto simp: owner_ids_def)

lemma method_in_owner: "m \<in> fst ` set (fr_methods (snd fd)) \<Longrightarrow> m \<in> set (owner_ids fd)"
  by (auto simp: owner_ids_def)

lemma tl_owner:
  "(n \<in> set (tl (owner_ids fd))) =
     (n \<in> fst ` set (fr_entities (snd fd)) \<or> n \<in> fst ` set (fr_methods (snd fd)))"
  by (auto simp: owner_ids_def)

text \<open>The four kinds of identifier are disjoint.\<close>

lemma file_not_member:
  assumes "wf_records fs" and "fd \<in> set fs" and "fd' \<in> set fs"
  shows "fst fd \<notin> set (tl (owner_ids fd'))"
proof
  assume a: "fst fd \<in> set (tl (owner_ids fd'))"
  then have "fst fd \<in> set (owner_ids fd')" by (auto simp: owner_ids_def)
  from owner_unique [OF wf_distinct [OF assms(1)] assms(2,3) file_in_owner this]
  have "fd = fd'" .
  with a owner_distinct [OF wf_distinct [OF assms(1)] assms(2)] show False
    by (simp add: owner_ids_def)
qed

lemma entity_not_method:
  assumes "wf_records fs" and "fd \<in> set fs" and "fd' \<in> set fs"
    and "x \<in> fst ` set (fr_entities (snd fd))"
  shows "x \<notin> fst ` set (fr_methods (snd fd'))"
proof
  assume a: "x \<in> fst ` set (fr_methods (snd fd'))"
  from owner_unique [OF wf_distinct [OF assms(1)] assms(2,3) entity_in_owner [OF assms(4)]
      method_in_owner [OF a]]
  have "fd = fd'" .
  with a assms(4) owner_distinct [OF wf_distinct [OF assms(1)] assms(2)] show False
    by (auto simp: owner_ids_def)
qed

lemma shape_cases:
  assumes "shape fs u v"
  obtains fd where "fd \<in> set fs" and "u = fst fd" and "v \<in> set (tl (owner_ids fd))"
  | fd where "fd \<in> set fs" and "u \<in> fst ` set (fr_entities (snd fd))"
      and "v \<in> fst ` set (fr_methods (snd fd))"
  using assms unfolding shape_def tl_owner by blast

lemma not_shape_to_external:
  assumes "wf_records fs" and "s \<in> set (external_sources fs)"
  shows "\<not> shape fs u s"
proof
  assume "shape fs u s"
  then have "s \<in> set (all_ids fs)"
    by (rule shape_cases) (auto simp: tl_owner intro: owner_ids_in_all entity_in_owner method_in_owner)
  with wf_external [OF assms] show False by simp
qed

lemma not_shape_to_file:
  assumes "wf_records fs" and "fd \<in> set fs"
  shows "\<not> shape fs u (fst fd)"
proof
  assume "shape fs u (fst fd)"
  then show False
  proof (rule shape_cases)
    fix fd' assume "fd' \<in> set fs" and "fst fd \<in> set (tl (owner_ids fd'))"
    with file_not_member [OF assms, of fd'] show False by simp
  next
    fix fd' assume "fd' \<in> set fs" and "fst fd \<in> fst ` set (fr_methods (snd fd'))"
    with file_not_member [OF assms, of fd'] show False by (simp add: tl_owner)
  qed
qed

lemma not_shape_to_entity_from_entity:
  assumes "wf_records fs" and "fd \<in> set fs" and "u \<in> fst ` set (fr_entities (snd fd))"
    and "fd' \<in> set fs" and "v \<in> fst ` set (fr_entities (snd fd'))"
  shows "\<not> shape fs u v"
proof
  assume "shape fs u v"
  then show False
  proof (rule shape_cases)
    fix g assume g: "g \<in> set fs" and "u = fst g"
    with file_not_member [OF assms(1) g assms(2)] assms(3) show False by (simp add: tl_owner)
  next
    fix g assume g: "g \<in> set fs" and "v \<in> fst ` set (fr_methods (snd g))"
    with entity_not_method [OF assms(1,4) g assms(5)] show False by simp
  qed
qed

lemma not_shape_from_method:
  assumes "wf_records fs" and "fd \<in> set fs" and "u \<in> fst ` set (fr_methods (snd fd))"
  shows "\<not> shape fs u v"
proof
  assume "shape fs u v"
  then show False
  proof (rule shape_cases)
    fix g assume g: "g \<in> set fs" and "u = fst g"
    with file_not_member [OF assms(1) g assms(2)] assms(3) show False by (simp add: tl_owner)
  next
    fix g assume g: "g \<in> set fs" and "u \<in> fst ` set (fr_entities (snd g))"
    with entity_not_method [OF assms(1) g assms(2)] assms(3) show False by simp
  qed
qed

subsection \<open>The containment invariant\<close>

lemma reach_cong:
  "(\<And>u v. contains_edge G' u v = contains_edge G u v) \<Longrightarrow> reach G' = reach G"
proof -
  assume "\<And>u v. contains_edge G' u v = contains_edge G u v"
  then have "contains_edge G' = contains_edge G" by (intro ext) simp
  then show ?thesis by (simp add: reach_def)
qed

lemma reach_mono:
  assumes "\<And>u v. contains_edge G u v \<Longrightarrow> contains_edge G' u v" and "reach G a b"
  shows "reach G' a b"
  using assms(2) unfolding reach_def
  by (induction rule: rtranclp_induct) (auto intro: rtranclp.rtrancl_into_rtrancl assms(1))

lemma reach_refl [simp]: "reach G a a"
  by (simp add: reach_def)

lemma reach_step: "reach G a b \<Longrightarrow> contains_edge G b c \<Longrightarrow> reach G a c"
  by (simp add: reach_def)

lemma contains_edge_add_node [simp]: "contains_edge (add_node G n a) u v = contains_edge G u v"
  by (simp add: contains_edge_def)

lemma contains_edge_add1:
  "contains_edge (add_edge G u v [(''type'', Some t)]) x y =
     (if x = u \<and> y = v then t = ''CONTAINS'' \<or> t = ''CONTAINS_FUNC'' \<or> t = ''HAS_METHOD''
      else contains_edge G x y)"
  by (simp add: contains_edge_def)

lemma contains_edge_add2:
  "contains_edge (add_edge G u v [(''type'', Some t), (''label'', l)]) x y =
     (if x = u \<and> y = v then t = ''CONTAINS'' \<or> t = ''CONTAINS_FUNC'' \<or> t = ''HAS_METHOD''
      else contains_edge G x y)"
  by (simp add: contains_edge_def)

lemma graph_invI:
  assumes "\<And>n. has_node G n \<Longrightarrow> typed_ok fs n (node_type G n)"
    and "\<And>u v. contains_edge G u v \<Longrightarrow> shape fs u v"
    and "\<And>fd n. fd \<in> set fs \<Longrightarrow> n \<in> set (tl (owner_ids fd)) \<Longrightarrow> has_node G n
           \<Longrightarrow> has_node G (fst fd) \<and> reach G (fst fd) n"
  shows "graph_inv fs G"
  using assms unfolding graph_inv_def by blast

lemma graph_inv_typed: "graph_inv fs G \<Longrightarrow> has_node G n \<Longrightarrow> typed_ok fs n (node_type G n)"
  unfolding graph_inv_def by blast

lemma graph_inv_shape: "graph_inv fs G \<Longrightarrow> contains_edge G u v \<Longrightarrow> shape fs u v"
  unfolding graph_inv_def by blast

lemma graph_inv_reach:
  "graph_inv fs G \<Longrightarrow> fd \<in> set fs \<Longrightarrow> n \<in> set (tl (owner_ids fd)) \<Longrightarrow> has_node G n
     \<Longrightarrow> has_node G (fst fd) \<and> reach G (fst fd) n"
  unfolding graph_inv_def by blast

lemma graph_inv_empty: "graph_inv fs empty_graph"
  by (rule graph_invI)
    (simp_all add: empty_graph_def has_node_def contains_edge_def edge_type_def edge_attr_def)

lemma graph_inv_file:
  assumes wf: "wf_records fs" and fd: "fd \<in> set fs" and inv: "graph_inv fs G"
  shows "graph_inv fs (add_node G (fst fd) (file_attrs ev (snd fd)))"
proof (rule graph_invI)
  fix n assume "has_node (add_node G (fst fd) (file_attrs ev (snd fd))) n"
  then show "typed_ok fs n (node_type (add_node G (fst fd) (file_attrs ev (snd fd))) n)"
    using fd graph_inv_typed [OF inv, of n] by (auto simp: typed_ok_def)
next
  fix u v assume "contains_edge (add_node G (fst fd) (file_attrs ev (snd fd))) u v"
  then show "shape fs u v"
    using graph_inv_shape [OF inv] by simp
next
  fix g n
  assume g: "g \<in> set fs" and n: "n \<in> set (tl (owner_ids g))"
    and h: "has_node (add_node G (fst fd) (file_attrs ev (snd fd))) n"
  from file_not_member [OF wf fd g] n have "n \<noteq> fst fd" by auto
  with h have "has_node G n" by simp
  from graph_inv_reach [OF inv g n this]
  show "has_node (add_node G (fst fd) (file_attrs ev (snd fd))) (fst g)
        \<and> reach (add_node G (fst fd) (file_attrs ev (snd fd))) (fst g) n"
    by (simp add: reach_cong [of "add_node G (fst fd) (file_attrs ev (snd fd))" G])
qed

lemma graph_inv_entity:
  assumes wf: "wf_records fs" and fd: "fd \<in> set fs" and ee: "ee \<in> set (fr_entities (snd fd))"
    and fnode: "has_node G (fst fd)" and inv: "graph_inv fs G"
  shows "graph_inv fs (add_entity (fst fd) ee G)"
proof -
  let ?G' = "add_entity (fst fd) ee G"
  have eid: "fst ee \<in> fst ` set (fr_entities (snd fd))" using ee by auto
  then have eid_tl: "fst ee \<in> set (tl (owner_ids fd))" by (simp add: tl_owner)
  have neq: "fst ee \<noteq> fst fd"
    using file_not_member [OF wf fd fd] eid_tl by auto
  have hn: "has_node ?G' n = (n = fst ee \<or> has_node G n)" for n
    using fnode by (auto simp: add_entity_def)
  have nt: "node_type ?G' n = (if n = fst ee then Some (kind_str (e_kind (snd ee))) else node_type G n)"
    for n by (simp add: add_entity_def)
  have ce: "contains_edge ?G' u v = ((u = fst fd \<and> v = fst ee) \<or> contains_edge G u v)" for u v
    by (auto simp: add_entity_def contains_edge_add1)
  show ?thesis
  proof (rule graph_invI)
    fix n assume "has_node ?G' n"
    then show "typed_ok fs n (node_type ?G' n)"
      using graph_inv_typed [OF inv, of n] fd eid unfolding hn nt
      by (auto simp: typed_ok_def)
  next
    fix u v assume "contains_edge ?G' u v"
    then show "shape fs u v"
      using graph_inv_shape [OF inv, of u v] fd eid unfolding ce
      by (auto simp: shape_def)
  next
    fix g n
    assume g: "g \<in> set fs" and n: "n \<in> set (tl (owner_ids g))" and h: "has_node ?G' n"
    show "has_node ?G' (fst g) \<and> reach ?G' (fst g) n"
    proof (cases "n = fst ee")
      case True
      have "fst ee \<in> set (owner_ids fd)" "fst ee \<in> set (owner_ids g)"
        using eid_tl n True by (auto simp: owner_ids_def)
      from owner_unique [OF wf_distinct [OF wf] fd g this] have "g = fd" by simp
      moreover have "reach ?G' (fst fd) (fst ee)"
        by (rule reach_step [OF reach_refl]) (simp add: ce)
      ultimately show ?thesis using True fnode by (simp add: hn)
    next
      case False
      with h have "has_node G n" by (simp add: hn)
      from graph_inv_reach [OF inv g n this]
      show ?thesis
        by (auto simp: hn ce intro: reach_mono [of G ?G'])
    qed
  qed
qed

lemma wf_method_entity:
  assumes "wf_records fs" and "fd \<in> set fs" and "mm \<in> set (fr_methods (snd fd))"
    and "m_entity_id (snd mm) = Some e"
  shows "e \<in> fst ` set (fr_entities (snd fd))"
  using wf_wf_file [OF assms(1,2)] assms(3,4)
  by (auto simp: wf_file_def list_all_iff split: option.splits)

lemma add_method_form:
  assumes wf: "wf_records fs" and fd: "fd \<in> set fs" and mm: "mm \<in> set (fr_methods (snd fd))"
    and fnode: "has_node G (fst fd)"
  shows "\<exists>src t. add_method (fst fd) mm G =
            add_edge (add_node G (fst mm) (method_attrs (fst fd) (snd mm))) src (fst mm)
              [(''type'', Some t)]
          \<and> (t = ''HAS_METHOD'' \<or> t = ''CONTAINS_FUNC'') \<and> has_node G src
          \<and> (src = fst fd \<or> src \<in> fst ` set (fr_entities (snd fd)))"
proof -
  let ?G1 = "add_node G (fst mm) (method_attrs (fst fd) (snd mm))"
  have mid: "fst mm \<in> fst ` set (fr_methods (snd fd))" using mm by auto
  show ?thesis
  proof (cases "truthy (m_entity_id (snd mm)) \<and> has_node_opt ?G1 (m_entity_id (snd mm))")
    case True
    then obtain e where e: "m_entity_id (snd mm) = Some e" and hn: "has_node ?G1 e"
      by (cases "m_entity_id (snd mm)") (auto simp: has_node_opt_def)
    from wf_method_entity [OF wf fd mm e] have ein: "e \<in> fst ` set (fr_entities (snd fd))" .
    from entity_not_method [OF wf fd fd ein] mid have "e \<noteq> fst mm" by auto
    with hn have "has_node G e" by simp
    moreover have "add_method (fst fd) mm G = add_edge ?G1 e (fst mm) [(''type'', Some ''HAS_METHOD'')]"
      using True e by (simp add: add_method_def Let_def)
    ultimately show ?thesis using ein by blast
  next
    case False
    then have "add_method (fst fd) mm G = add_edge ?G1 (fst fd) (fst mm) [(''type'', Some ''CONTAINS_FUNC'')]"
      using wf_file_id [OF wf fd] by (auto simp: add_method_def Let_def)
    then show ?thesis using fnode by blast
  qed
qed

lemma graph_inv_method:
  assumes wf: "wf_records fs" and fd: "fd \<in> set fs" and mm: "mm \<in> set (fr_methods (snd fd))"
    and fnode: "has_node G (fst fd)" and inv: "graph_inv fs G"
  shows "graph_inv fs (add_method (fst fd) mm G)"
proof -
  let ?G' = "add_method (fst fd) mm G"
  from add_method_form [OF wf fd mm fnode] obtain src t
    where form: "?G' = add_edge (add_node G (fst mm) (method_attrs (fst fd) (snd mm))) src (fst mm)
              [(''type'', Some t)]"
      and t: "t = ''HAS_METHOD'' \<or> t = ''CONTAINS_FUNC''" and srcn: "has_node G src"
      and src: "src = fst fd \<or> src \<in> fst ` set (fr_entities (snd fd))"
    by blast
  have mid: "fst mm \<in> fst ` set (fr_methods (snd fd))" using mm by auto
  then have mid_tl: "fst mm \<in> set (tl (owner_ids fd))" by (simp add: tl_owner)
  have hn: "has_node ?G' n = (n = fst mm \<or> has_node G n)" for n
    using srcn unfolding form by auto
  have nt: "node_type ?G' n = (if n = fst mm then Some ''Method'' else node_type G n)" for n
    unfolding form by simp
  have ce: "contains_edge ?G' u v = ((u = src \<and> v = fst mm) \<or> contains_edge G u v)" for u v
    unfolding form using t by (auto simp: contains_edge_add1)
  have src_reach: "reach G (fst fd) src"
  proof (cases "src = fst fd")
    case True then show ?thesis by simp
  next
    case False
    with src have "src \<in> set (tl (owner_ids fd))" by (simp add: tl_owner)
    from graph_inv_reach [OF inv fd this srcn] show ?thesis by simp
  qed
  show ?thesis
  proof (rule graph_invI)
    fix n assume "has_node ?G' n"
    then show "typed_ok fs n (node_type ?G' n)"
      using graph_inv_typed [OF inv, of n] fd mid unfolding hn nt
      by (auto simp: typed_ok_def)
  next
    fix u v assume "contains_edge ?G' u v"
    then show "shape fs u v"
      using graph_inv_shape [OF inv, of u v] fd mid src unfolding ce
      by (auto simp: shape_def)
  next
    fix g n
    assume g: "g \<in> set fs" and n: "n \<in> set (tl (owner_ids g))" and h: "has_node ?G' n"
    show "has_node ?G' (fst g) \<and> reach ?G' (fst g) n"
    proof (cases "n = fst mm")
      case True
      have "fst mm \<in> set (owner_ids fd)" "fst mm \<in> set (owner_ids g)"
        using mid_tl n True by (auto simp: owner_ids_def)
      from owner_unique [OF wf_distinct [OF wf] fd g this] have "g = fd" by simp
      moreover have "reach ?G' (fst fd) (fst mm)"
        by (rule reach_step [OF reach_mono [OF _ src_reach]]) (simp_all add: ce)
      ultimately show ?thesis using True fnode by (simp add: hn)
    next
      case False
      with h have "has_node G n" by (simp add: hn)
      from graph_inv_reach [OF inv g n this]
      show ?thesis
        by (auto simp: hn ce intro: reach_mono [of G ?G'])
    qed
  qed
qed

text \<open>The node phase.\<close>

lemma has_node_add_entity: "has_node G n \<Longrightarrow> has_node (add_entity f ee G) n"
  by (simp add: add_entity_def)

lemma has_node_add_method: "has_node G n \<Longrightarrow> has_node (add_method f mm G) n"
  by (simp add: add_method_def Let_def split: option.splits)

lemma has_node_add_file_nodes:
  "has_node (add_file_nodes ev fd G) n" if "n = fst fd \<or> has_node G n"
  unfolding add_file_nodes_def
  by (intro fold_inv [where P = "\<lambda>G. has_node G n"] has_node_add_entity has_node_add_method)
    (use that in auto)

lemma graph_inv_add_file_nodes:
  assumes wf: "wf_records fs" and fd: "fd \<in> set fs" and inv: "graph_inv fs G"
  shows "graph_inv fs (add_file_nodes ev fd G)"
proof -
  let ?P = "\<lambda>G. has_node G (fst fd) \<and> graph_inv fs G"
  have 0: "?P (add_node G (fst fd) (file_attrs ev (snd fd)))"
    using graph_inv_file [OF wf fd inv] by simp
  have 1: "?P (fold (add_entity (fst fd)) (fr_entities (snd fd))
                (add_node G (fst fd) (file_attrs ev (snd fd))))"
    by (rule fold_inv [where P = ?P, OF 0])
      (auto intro: has_node_add_entity graph_inv_entity [OF wf fd])
  have "?P (add_file_nodes ev fd G)"
    unfolding add_file_nodes_def
    by (rule fold_inv [where P = ?P, OF 1])
      (auto intro: has_node_add_method graph_inv_method [OF wf fd])
  then show ?thesis by simp
qed

lemma graph_inv_node_phase:
  assumes wf: "wf_records fs"
  shows "graph_inv fs (node_phase ev fs)"
  unfolding node_phase_def
  by (rule fold_inv [where P = "graph_inv fs", OF graph_inv_empty])
    (auto intro: graph_inv_add_file_nodes [OF wf])

lemma files_present_node_phase:
  assumes "fd \<in> set fs"
  shows "has_node (node_phase ev fs) (fst fd)"
proof -
  have "\<forall>g \<in> set fs. has_node (fold (add_file_nodes ev) fs empty_graph) (fst g)"
    by (rule fold_prefix_inv [where P = "\<lambda>pre G. \<forall>g \<in> set pre. has_node G (fst g)"])
      (auto intro: has_node_add_file_nodes)
  with assms show ?thesis by (simp add: node_phase_def)
qed

text \<open>The edge phase.\<close>

lemma graph_inv_external_node:
  assumes wf: "wf_records fs" and s: "s \<in> set (external_sources fs)" and inv: "graph_inv fs G"
  shows "graph_inv fs (add_node G s [(''type'', Some ''External''), (''label'', Some l),
           (''title'', Some t)])"
    (is "graph_inv fs ?G'")
proof (rule graph_invI)
  fix n assume "has_node ?G' n"
  then show "typed_ok fs n (node_type ?G' n)"
    using s graph_inv_typed [OF inv, of n] by (auto simp: typed_ok_def)
next
  fix u v assume "contains_edge ?G' u v"
  then show "shape fs u v"
    using graph_inv_shape [OF inv] by simp
next
  fix g n
  assume g: "g \<in> set fs" and n: "n \<in> set (tl (owner_ids g))" and h: "has_node ?G' n"
  have "n \<in> set (owner_ids g)"
    using n by (simp add: owner_ids_def)
  with g have "n \<in> set (all_ids fs)" by (rule owner_ids_in_all)
  with wf_external [OF wf s] have "n \<noteq> s" by auto
  with h have "has_node G n" by simp
  from graph_inv_reach [OF inv g n this]
  show "has_node ?G' (fst g) \<and> reach ?G' (fst g) n"
    by (simp add: reach_cong [of ?G' G])
qed

lemma graph_inv_plain_edge:
  assumes inv: "graph_inv fs G" and u: "has_node G u" and v: "has_node G v"
    and ns: "\<not> shape fs u v"
    and t: "t \<noteq> ''CONTAINS''" "t \<noteq> ''CONTAINS_FUNC''" "t \<noteq> ''HAS_METHOD''"
  shows "graph_inv fs (add_edge G u v [(''type'', Some t), (''label'', l)])"
    (is "graph_inv fs ?G'")
proof -
  have "\<not> contains_edge G u v"
    using graph_inv_shape [OF inv, of u v] ns by blast
  then have ce: "contains_edge ?G' x y = contains_edge G x y" for x y
    using t by (auto simp: contains_edge_add2)
  have hn: "has_node ?G' n = has_node G n" for n
    using u v by auto
  show ?thesis
  proof (rule graph_invI)
    fix n assume "has_node ?G' n"
    then show "typed_ok fs n (node_type ?G' n)"
      using graph_inv_typed [OF inv, of n] u v by auto
  next
    fix x y assume "contains_edge ?G' x y"
    then show "shape fs x y"
      using graph_inv_shape [OF inv] by (simp add: ce)
  next
    fix g n
    assume "g \<in> set fs" and "n \<in> set (tl (owner_ids g))" and "has_node ?G' n"
    then show "has_node ?G' (fst g) \<and> reach ?G' (fst g) n"
      using graph_inv_reach [OF inv, of g n] u v
      by (auto simp: reach_cong [of ?G' G, OF ce])
  qed
qed

lemma first_known_in_ids: "first_known ps ids = Inr (Some t) \<Longrightarrow> t \<in> set ids"
  by (induction ps ids rule: first_known.induct) (auto split: if_splits option.splits)

lemma resolve_internal_path_in_ids:
  "resolve_internal_path ev p s ids = Inr (Some t, lg) \<Longrightarrow> t \<in> set ids"
  by (auto simp: resolve_internal_path_def split: option.splits sum.splits
      dest: first_known_in_ids)

lemma find_entity_in_keys: "find_entity es n = Some t \<Longrightarrow> t \<in> fst ` set es"
  by (induction es) (auto simp: find_entity_def split: if_splits)

lemma all_entities_key:
  "t \<in> fst ` set (all_entities fs) \<Longrightarrow> \<exists>g \<in> set fs. t \<in> fst ` set (fr_entities (snd g))"
  by (auto simp: all_entities_def)

lemma resolve_dependency_entity:
  assumes "resolve_dependency fs (snd fd) x = Some t" and "fd \<in> set fs"
  shows "\<exists>g \<in> set fs. t \<in> fst ` set (fr_entities (snd g))"
proof (cases "truthy (find_entity (fr_entities (snd fd)) x)")
  case True
  with assms(1) have "find_entity (fr_entities (snd fd)) x = Some t"
    by (simp add: resolve_dependency_def)
  from find_entity_in_keys [OF this] assms(2) show ?thesis by blast
next
  case False
  with assms(1) have "find_entity (all_entities fs) x = Some t"
    by (simp add: resolve_dependency_def)
  from all_entities_key [OF find_entity_in_keys [OF this]] show ?thesis .
qed

lemma st_graph_log_debug [simp]: "st_graph (log_debug m st) = st_graph st"
  by (simp add: log_debug_def)

lemma edge_inv_log [simp]: "edge_inv fs (log_debug m st) = edge_inv fs st"
  by (simp add: edge_inv_def log_debug_def external_inv_def)

lemma edge_inv_plain_edge:
  assumes inv: "edge_inv fs st" and u: "has_node (st_graph st) u" and v: "has_node (st_graph st) v"
    and ns: "\<not> shape fs u v"
    and t: "t \<noteq> ''CONTAINS''" "t \<noteq> ''CONTAINS_FUNC''" "t \<noteq> ''HAS_METHOD''"
  shows "edge_inv fs (st\<lparr>st_graph := add_edge (st_graph st) u v [(''type'', Some t), (''label'', l)]\<rparr>)"
proof -
  have "nodes_kept st (st\<lparr>st_graph := add_edge (st_graph st) u v [(''type'', Some t), (''label'', l)]\<rparr>)"
    by simp
  with inv have "external_inv (st\<lparr>st_graph := add_edge (st_graph st) u v [(''type'', Some t), (''label'', l)]\<rparr>)"
    unfolding edge_inv_def by (blast intro: external_inv_kept)
  moreover have "graph_inv fs (add_edge (st_graph st) u v [(''type'', Some t), (''label'', l)])"
    using graph_inv_plain_edge [OF _ u v ns t] inv by (simp add: edge_inv_def)
  ultimately show ?thesis
    using inv by (simp add: edge_inv_def)
qed

lemma edge_inv_process_dep:
  assumes wf: "wf_records fs" and fd: "fd \<in> set fs"
    and ek: "ek \<in> fst ` set (fr_entities (snd fd))" and ekn: "has_node (st_graph st) ek"
    and inv: "edge_inv fs st"
  shows "edge_inv fs (process_dep fs (snd fd) ek dep st) \<and> has_node (st_graph (process_dep fs (snd fd) ek dep st)) ek"
proof (cases "truthy (resolve_dependency fs (snd fd) (d_type dep))
    \<and> has_node_opt (st_graph st) (resolve_dependency fs (snd fd) (d_type dep))")
  case True
  then obtain t where t: "resolve_dependency fs (snd fd) (d_type dep) = Some t"
    and tn: "has_node (st_graph st) t"
    by (cases "resolve_dependency fs (snd fd) (d_type dep)") (auto simp: has_node_opt_def)
  from resolve_dependency_entity [OF t fd] obtain g
    where g: "g \<in> set fs" and tg: "t \<in> fst ` set (fr_entities (snd g))" by blast
  have eq: "process_dep fs (snd fd) ek dep st =
          st\<lparr>st_graph := add_edge (st_graph st) ek t
                 [(''type'', Some ''INJECTS''), (''label'', Some (''as '' @ d_name dep))]\<rparr>"
    using True t by (simp add: process_dep_def Let_def)
  show ?thesis
    unfolding eq
    using edge_inv_plain_edge [OF inv ekn tn not_shape_to_entity_from_entity [OF wf fd ek g tg]] ekn
    by simp
next
  case False
  then have "process_dep fs (snd fd) ek dep st = log_debug
       (''Injection edge skipped: Cannot resolve dependency type ''
             @ quoted (d_type dep) @ '' for '' @ quoted ek) st"
    by (auto simp: process_dep_def Let_def)
  then show ?thesis using inv ekn by simp
qed

lemma wf_dep_key:
  assumes "wf_records fs" and "fd \<in> set fs" and "ed \<in> set (fr_dependencies (snd fd))"
  shows "fst ed \<in> fst ` set (fr_entities (snd fd))"
  using wf_wf_file [OF assms(1,2)] assms(3) by (auto simp: wf_file_def list_all_iff)

lemma wf_call_key:
  assumes "wf_records fs" and "fd \<in> set fs" and "mc \<in> set (fr_calls (snd fd))"
  shows "fst mc \<in> fst ` set (fr_methods (snd fd))"
  using wf_wf_file [OF assms(1,2)] assms(3) by (auto simp: wf_file_def list_all_iff)

lemma edge_inv_process_deps:
  assumes wf: "wf_records fs" and fd: "fd \<in> set fs"
    and ed: "ed \<in> set (fr_dependencies (snd fd))" and inv: "edge_inv fs st"
  shows "edge_inv fs (process_deps fs (snd fd) ed st)"
proof (cases "has_node (st_graph st) (fst ed)")
  case False
  then show ?thesis using inv by (simp add: process_deps_def)
next
  case True
  let ?P = "\<lambda>t. edge_inv fs t \<and> has_node (st_graph t) (fst ed)"
  have "?P (fold (process_dep fs (snd fd) (fst ed)) (snd ed) st)"
    by (rule fold_inv [where P = ?P])
      (use True inv edge_inv_process_dep [OF wf fd wf_dep_key [OF wf fd ed]] in auto)
  with True show ?thesis by (simp add: process_deps_def)
qed

lemma edge_inv_process_call:
  assumes wf: "wf_records fs" and fd: "fd \<in> set fs"
    and mk: "mk \<in> fst ` set (fr_methods (snd fd))" and mkn: "has_node (st_graph st) mk"
    and inv: "edge_inv fs st"
  shows "edge_inv fs (process_call fs (snd fd) mk ce c st)
         \<and> has_node (st_graph (process_call fs (snd fd) mk ce c st)) mk"
proof -
  note ns = not_shape_from_method [OF wf fd mk]
  let ?t = "call_target fs (snd fd) ce c"
  show ?thesis
  proof (cases "truthy ?t \<and> has_node_opt (st_graph st) ?t")
    case True
    then obtain t where t: "?t = Some t" and tn: "has_node (st_graph st) t"
      by (cases ?t) (auto simp: has_node_opt_def)
    have eq: "process_call fs (snd fd) mk ce c st =
        st\<lparr>st_graph := add_edge (st_graph st) mk t
               [(''type'', Some ''CALLS''),
                (''label'', Some (if c_is_await c then ''await'' else []))]\<rparr>"
      using True t by (simp add: process_call_def Let_def)
    show ?thesis
      unfolding eq using edge_inv_plain_edge [OF inv mkn tn ns] mkn by simp
  next
    case False
    note nt = this
    show ?thesis
    proof (cases "truthy (c_base_expression c) \<and> \<not> truthy ?t")
      case True
      then obtain b where b: "c_base_expression c = Some b"
        by (cases "c_base_expression c") auto
      show ?thesis
      proof (cases "has_node (st_graph st) b")
        case bn: True
        have eq: "process_call fs (snd fd) mk ce c st =
            st\<lparr>st_graph := add_edge (st_graph st) mk b
                   [(''type'', Some ''CALLS_EXT''), (''label'', Some (c_called_method_name c))]\<rparr>"
          using nt True b bn by (auto simp: process_call_def Let_def)
        show ?thesis
          unfolding eq using edge_inv_plain_edge [OF inv mkn bn ns] mkn by simp
      next
        case bn: False
        have "\<exists>m. process_call fs (snd fd) mk ce c st = log_debug m st"
          using nt True b bn by (auto simp: process_call_def Let_def)
        then show ?thesis using inv mkn by auto
      qed
    next
      case False
      have "process_call fs (snd fd) mk ce c st = st
            \<or> (\<exists>m. process_call fs (snd fd) mk ce c st = log_debug m st)"
        using nt False by (auto simp: process_call_def Let_def)
      then show ?thesis using inv mkn by auto
    qed
  qed
qed

lemma edge_inv_process_calls:
  assumes wf: "wf_records fs" and fd: "fd \<in> set fs"
    and mc: "mc \<in> set (fr_calls (snd fd))" and inv: "edge_inv fs st"
  shows "edge_inv fs (process_calls fs (snd fd) mc st)"
proof (cases "has_node (st_graph st) (fst mc)")
  case False
  then show ?thesis using inv by (simp add: process_calls_def)
next
  case True
  let ?P = "\<lambda>t. edge_inv fs t \<and> has_node (st_graph t) (fst mc)"
  have "?P (fold (process_call fs (snd fd) (fst mc) (node_attr (st_graph st) (fst mc) ''entity_id''))
              (snd mc) st)"
    by (rule fold_inv [where P = ?P])
      (use True inv edge_inv_process_call [OF wf fd wf_call_key [OF wf fd mc]] in auto)
  with True show ?thesis by (simp add: process_calls_def)
qed

lemma external_source_member:
  "fd \<in> set fs \<Longrightarrow> imp \<in> set (fr_imports (snd fd)) \<Longrightarrow> i_is_external imp
     \<Longrightarrow> i_source imp \<in> set (external_sources fs)"
  by (auto simp: external_sources_def external_sources_of_def)

lemma edge_inv_process_import:
  assumes wf: "wf_records fs" and fd: "fd \<in> set fs"
    and imp: "imp \<in> set (fr_imports (snd fd))"
    and step: "process_import ev (map fst fs) (fst fd) (snd fd) imp st = Inr st'"
    and inv: "edge_inv fs st"
  shows "edge_inv fs st'"
proof -
  have ext: "external_inv st'"
    using process_import_external_inv [OF step] inv by (simp add: edge_inv_def)
  have fn: "has_node (st_graph st) (fst fd)"
    using inv fd by (simp add: edge_inv_def)
  have gi: "graph_inv fs (st_graph st)"
    using inv by (simp add: edge_inv_def)
  have "graph_inv fs (st_graph st') \<and> (\<forall>n. has_node (st_graph st) n \<longrightarrow> has_node (st_graph st') n)"
  proof (cases "i_is_external imp")
    case True
    let ?s = "i_source imp"
    let ?G1 = "if ?s \<in> set (st_processed_external_imports st) then st_graph st
               else add_node (st_graph st) ?s
                 [(''type'', Some ''External''), (''label'', Some ?s),
                  (''title'', Some (''External Library: '' @ ?s))]"
    have s: "?s \<in> set (external_sources fs)"
      by (rule external_source_member [OF fd imp True])
    have g1: "graph_inv fs ?G1"
      using gi graph_inv_external_node [OF wf s gi] by simp
    have sn: "has_node ?G1 ?s"
    proof (cases "?s \<in> set (st_processed_external_imports st)")
      case True
      with inv have "node_type (st_graph st) ?s = Some ''External''"
        by (simp add: edge_inv_def external_inv_def)
      then show ?thesis
        using True by (auto simp: has_node_def node_type_def node_attr_def split: option.splits)
    next
      case False
      then show ?thesis by simp
    qed
    have fn1: "has_node ?G1 (fst fd)" using fn by simp
    from graph_inv_plain_edge [OF g1 fn1 sn not_shape_to_external [OF wf s]]
    show ?thesis
      unfolding process_import_external(1) [OF step True] by auto
  next
    case False
    from process_import_internal [OF step False] obtain t lg
      where r: "resolve_internal_path ev (fr_file_path (snd fd)) (i_source imp) (map fst fs) = Inr (t, lg)"
        and g: "st_graph st' =
               (if truthy t \<and> has_node_opt (st_graph st) t
                then add_edge (st_graph st) (fst fd) (case t of None \<Rightarrow> [] | Some x \<Rightarrow> x)
                       [(''type'', Some ''IMPORTS_INT''),
                        (''label'', Some (path_name ev (i_source imp)))]
                else st_graph st)"
      by blast
    show ?thesis
    proof (cases "truthy t \<and> has_node_opt (st_graph st) t")
      case True
      then obtain x where x: "t = Some x" and xn: "has_node (st_graph st) x"
        by (cases t) (auto simp: has_node_opt_def)
      from resolve_internal_path_in_ids [OF r [unfolded x]] obtain g' where
        g': "g' \<in> set fs" and xg: "x = fst g'" by auto
      from graph_inv_plain_edge [OF gi fn xn [unfolded xg] not_shape_to_file [OF wf g']]
      show ?thesis using g True x xg by auto
    next
      case False
      then show ?thesis using g gi by auto
    qed
  qed
  with ext inv show ?thesis by (auto simp: edge_inv_def)
qed

lemma edge_inv_add_file_edges:
  assumes wf: "wf_records fs" and fd: "fd \<in> set fs"
    and step: "add_file_edges ev fs fd st = Inr st'" and inv: "edge_inv fs st"
  shows "edge_inv fs st'"
proof -
  from step obtain st1
    where imps: "foldM (process_import ev (map fst fs) (fst fd) (snd fd)) (fr_imports (snd fd)) st
                   = Inr st1"
      and tail: "st' = fold (process_calls fs (snd fd)) (fr_calls (snd fd))
                   (fold (process_deps fs (snd fd)) (fr_dependencies (snd fd)) st1)"
    by (auto simp: add_file_edges_def split: sum.splits)
  have 1: "edge_inv fs st1"
    by (rule foldM_inv [OF imps, where P = "edge_inv fs", OF inv])
      (rule edge_inv_process_import [OF wf fd])
  have 2: "edge_inv fs (fold (process_deps fs (snd fd)) (fr_dependencies (snd fd)) st1)"
    by (rule fold_inv [where P = "edge_inv fs", OF 1]) (rule edge_inv_process_deps [OF wf fd])
  show ?thesis
    unfolding tail
    by (rule fold_inv [where P = "edge_inv fs", OF 2]) (rule edge_inv_process_calls [OF wf fd])
qed

lemma edge_inv_edge_phase:
  assumes wf: "wf_records fs" and run: "edge_phase ev fs = Inr st"
  shows "edge_inv fs st"
proof (rule foldM_inv [OF run [unfolded edge_phase_def], where P = "edge_inv fs"])
  show "edge_inv fs \<lparr>st_graph = node_phase ev fs, st_processed_external_imports = [],
           st_log = [Info ''Building graph nodes...'', Info ''Building graph edges...'']\<rparr>"
    using graph_inv_node_phase [OF wf, of ev] files_present_node_phase [of _ fs ev]
      no_external_node_phase [of ev fs]
    by (simp add: edge_inv_def external_inv_def no_external_def)
next
  fix x t t'
  assume "x \<in> set fs" and "edge_inv fs t" and "add_file_edges ev fs x t = Inr t'"
  then show "edge_inv fs t'"
    using edge_inv_add_file_edges [OF wf] by blast
qed

lemma typed_file: "typed_ok fs n (Some ''File'') \<Longrightarrow> n \<in> fst ` set fs"
  by (auto simp: typed_ok_def)

lemma typed_of_file:
  assumes wf: "wf_records fs" and fd: "fd \<in> set fs" and t: "typed_ok fs (fst fd) t"
  shows "t = Some ''File''"
proof -
  have "fst fd \<notin> fst ` set (fr_entities (snd g))" "fst fd \<notin> fst ` set (fr_methods (snd g))"
    if "g \<in> set fs" for g
    using file_not_member [OF wf fd that] by (simp_all add: tl_owner)
  moreover have "fst fd \<notin> set (external_sources fs)"
    using wf_external [OF wf, of "fst fd"] owner_ids_in_all [OF fd file_in_owner] by blast
  ultimately show ?thesis using t by (auto simp: typed_ok_def)
qed

lemma typed_owner:
  assumes "typed_ok fs n t" and "t \<noteq> Some ''External''"
  shows "\<exists>fd \<in> set fs. n \<in> set (owner_ids fd)"
  using assms by (auto simp: typed_ok_def owner_ids_def)

lemma shape_owner: "shape fs u v \<Longrightarrow> \<exists>fd \<in> set fs. u \<in> set (owner_ids fd) \<and> v \<in> set (owner_ids fd)"
  by (auto simp: shape_def owner_ids_def)

lemma reach_owner:
  assumes wf: "wf_records fs" and inv: "graph_inv fs G" and r: "reach G u v"
  shows "u = v \<or> (\<exists>fd \<in> set fs. u \<in> set (owner_ids fd) \<and> v \<in> set (owner_ids fd))"
  using r unfolding reach_def
proof (induction rule: rtranclp_induct)
  case base
  then show ?case by simp
next
  case (step y z)
  from shape_owner [OF graph_inv_shape [OF inv step.hyps(2)]] obtain g
    where g: "g \<in> set fs" "y \<in> set (owner_ids g)" "z \<in> set (owner_ids g)" by blast
  from step.IH show ?case
  proof
    assume "u = y"
    with g show ?thesis by blast
  next
    assume "\<exists>fd \<in> set fs. u \<in> set (owner_ids fd) \<and> y \<in> set (owner_ids fd)"
    then obtain h where h: "h \<in> set fs" "u \<in> set (owner_ids h)" "y \<in> set (owner_ids h)" by blast
    from owner_unique [OF wf_distinct [OF wf] h(1) g(1) h(3) g(2)] have "h = g" .
    with h g show ?thesis by blast
  qed
qed

lemma node_type_has_node: "node_type G n = Some t \<Longrightarrow> has_node G n"
  by (auto simp: node_type_def node_attr_def has_node_def split: option.splits)

lemma file_reach_owner:
  assumes wf: "wf_records fs" and inv: "graph_inv fs G"
    and f: "node_type G f = Some ''File''" and r: "reach G f n"
    and g: "g \<in> set fs" and n: "n \<in> set (owner_ids g)"
  shows "f = fst g"
proof -
  from typed_file [OF graph_inv_typed [OF inv node_type_has_node [OF f], unfolded f]]
  obtain h where h: "h \<in> set fs" and fh: "f = fst h" by auto
  from reach_owner [OF wf inv r] show ?thesis
  proof
    assume "f = n"
    with n fh have "fst h \<in> set (owner_ids g)" by simp
    from owner_unique [OF wf_distinct [OF wf] h g file_in_owner this] fh show ?thesis by simp
  next
    assume "\<exists>fd \<in> set fs. f \<in> set (owner_ids fd) \<and> n \<in> set (owner_ids fd)"
    then obtain k where k: "k \<in> set fs" "f \<in> set (owner_ids k)" "n \<in> set (owner_ids k)" by blast
    from owner_unique [OF wf_distinct [OF wf] k(1) g k(3) n] have "k = g" .
    with k(2) fh have "fst h \<in> set (owner_ids g)" by simp
    from owner_unique [OF wf_distinct [OF wf] h g file_in_owner this] fh show ?thesis by simp
  qed
qed

section \<open>Call resolution\<close>

lemma call_target_of_dependency:
  assumes "c_base_expression call = Some b" and "b \<noteq> ''this''" and "b \<noteq> []"
    and "find (\<lambda>dep. Some (d_name dep) = Some b) (caller_deps d caller_entity_id) = Some dep"
  shows "call_target fs d caller_entity_id call =
           (case find_entity (all_entities fs) (d_type dep) of
              None \<Rightarrow> None
            | Some de \<Rightarrow> if de = [] then None else Some (de @ ''::'' @ c_called_method_name call))"
  using assms by (auto simp: call_target_def Let_def split: option.splits)

text \<open>
  C1, as the source has it.  For a call whose base expression is a non-empty identifier
  other than \<open>this\<close> that names a dependency of the caller's entity, the dependency's type
  is resolved by the global search alone: the first entity, over the files in input order
  and the entities of each file in order, whose name is the type string.  The owning file
  is not searched first; the result is the one of dependency-injection resolution whenever
  the owning file declares no entity of that name.  If the entity found is \<open>de\<close> and the
  node \<open>de::name\<close> is in the graph, the step adds the \<open>CALLS\<close> edge from the calling method
  to it.
\<close>

theorem call_via_dependency_resolves_globally:
  assumes "c_base_expression call = Some b" and "b \<noteq> ''this''" and "b \<noteq> []"
    and "find (\<lambda>dep. Some (d_name dep) = Some b) (caller_deps d caller_entity_id) = Some dep"
  shows "call_target fs d caller_entity_id call =
           (case find_entity (all_entities fs) (d_type dep) of
              None \<Rightarrow> None
            | Some de \<Rightarrow> if de = [] then None else Some (de @ ''::'' @ c_called_method_name call))
         \<and> (\<not> truthy (find_entity (fr_entities d) (d_type dep)) \<longrightarrow>
              resolve_dependency fs d (d_type dep) = find_entity (all_entities fs) (d_type dep))
         \<and> (\<forall>de. find_entity (all_entities fs) (d_type dep) = Some de \<and> de \<noteq> []
                \<and> has_node (st_graph st) (de @ ''::'' @ c_called_method_name call) \<longrightarrow>
              st_graph (process_call fs d method_id caller_entity_id call st) =
                add_edge (st_graph st) method_id (de @ ''::'' @ c_called_method_name call)
                  [(''type'', Some ''CALLS''),
                   (''label'', Some (if c_is_await call then ''await'' else []))])"
proof (intro conjI allI impI)
  show tgt: "call_target fs d caller_entity_id call =
           (case find_entity (all_entities fs) (d_type dep) of
              None \<Rightarrow> None
            | Some de \<Rightarrow> if de = [] then None else Some (de @ ''::'' @ c_called_method_name call))"
    by (rule call_target_of_dependency [OF assms])
  show "resolve_dependency fs d (d_type dep) = find_entity (all_entities fs) (d_type dep)"
    if "\<not> truthy (find_entity (fr_entities d) (d_type dep))"
    using that by (simp add: resolve_dependency_def)
  show "st_graph (process_call fs d method_id caller_entity_id call st) =
          add_edge (st_graph st) method_id (de @ ''::'' @ c_called_method_name call)
            [(''type'', Some ''CALLS''),
             (''label'', Some (if c_is_await call then ''await'' else []))]"
    if "find_entity (all_entities fs) (d_type dep) = Some de \<and> de \<noteq> []
          \<and> has_node (st_graph st) (de @ ''::'' @ c_called_method_name call)" for de
    using that tgt by (simp add: process_call_def Let_def has_node_opt_def)
qed

theorem call_via_dependency_resolves_globally_witness:
  "c_base_expression shadowed_call = Some ''b'' \<and> ''b'' \<noteq> ''this'' \<and> ''b'' \<noteq> []
   \<and> find (\<lambda>dep. Some (d_name dep) = Some ''b'') (caller_deps shadowed_b (Some ''b.ts::A''))
       = Some \<lparr>d_name = ''b'', d_type = ''B''\<rparr>
   \<and> call_target shadowed_files shadowed_b (Some ''b.ts::A'') shadowed_call = Some ''a.ts::B::go''
   \<and> find_entity (all_entities shadowed_files) ''B'' = Some ''a.ts::B''
   \<and> has_node (node_phase flat_env shadowed_files) ''a.ts::B::go''
   \<and> st_graph (process_call shadowed_files shadowed_b ''b.ts::A::useB'' (Some ''b.ts::A'')
        shadowed_call
        \<lparr>st_graph = node_phase flat_env shadowed_files, st_processed_external_imports = [],
         st_log = []\<rparr>)
      = add_edge (node_phase flat_env shadowed_files) ''b.ts::A::useB'' ''a.ts::B::go''
          [(''type'', Some ''CALLS''), (''label'', Some [])]"
proof -
  have h1: "c_base_expression shadowed_call = Some ''b''"
    by (simp add: shadowed_call_def)
  have h2: "''b'' \<noteq> ''this''" and h3: "''b'' \<noteq> []"
    by simp_all
  have h4: "find (\<lambda>dep. Some (d_name dep) = Some ''b'') (caller_deps shadowed_b (Some ''b.ts::A''))
       = Some \<lparr>d_name = ''b'', d_type = ''B''\<rparr>"
    by (simp add: shadowed_b_def shadowed_files_def caller_deps_def)
  have h5: "find_entity (all_entities shadowed_files) ''B'' = Some ''a.ts::B''"
    by (simp add: shadowed_files_def all_entities_def find_entity_def)
  have h6: "has_node (node_phase flat_env shadowed_files) ''a.ts::B::go''"
    by code_simp
  have h7: "c_called_method_name shadowed_call = ''go''" "c_is_await shadowed_call = False"
    by (simp_all add: shadowed_call_def)
  show ?thesis
    using call_via_dependency_resolves_globally [OF h1 h2 h3 h4, of shadowed_files
        "\<lparr>st_graph = node_phase flat_env shadowed_files, st_processed_external_imports = [],
          st_log = []\<rparr>" "''b.ts::A::useB''"]
      h1 h4 h5 h6 h7
    by simp
qed

text \<open>
  C1, as the specification words it, fails on \<open>shadowed_files\<close>: the dependency \<open>b: B\<close> of
  \<open>b.ts::A\<close> is injected from the class \<open>B\<close> of the owning file \<open>b.ts\<close>, while the call
  \<open>b.go()\<close> is resolved to the class \<open>B\<close> of \<open>a.ts\<close>, the first in the global order.
\<close>

theorem call_resolution_differs_from_injection:
  "resolve_dependency shadowed_files shadowed_b ''B'' = Some ''b.ts::B''
   \<and> call_target shadowed_files shadowed_b (Some ''b.ts::A'') shadowed_call = Some ''a.ts::B::go''
   \<and> edge_type (built_graph (build_graph flat_env shadowed_files)) ''b.ts::A'' ''b.ts::B''
       = Some ''INJECTS''
   \<and> edge_type (built_graph (build_graph flat_env shadowed_files)) ''b.ts::A::useB''
       ''a.ts::B::go'' = Some ''CALLS''
   \<and> \<not> has_edge (built_graph (build_graph flat_env shadowed_files)) ''b.ts::A::useB''
       ''b.ts::B::go''"
  by code_simp

text \<open>
  C2 at \<open>this_call_files\<close>: the call \<open>this.n()\<close> inside \<open>a.ts::A::m\<close> has no target, since
  \<open>a.ts::A::n\<close> is not a node.  The run adds no edge for it, and it logs nothing about it
  either: the three messages of the run are the progress lines, none is a diagnostic.
\<close>

theorem this_call_unresolved_silent:
  "\<not> has_node (built_graph (build_graph flat_env this_call_files)) ''a.ts::A::n''
   \<and> \<not> has_edge (built_graph (build_graph flat_env this_call_files)) ''a.ts::A::m'' ''a.ts::A::n''
   \<and> built_log (build_graph flat_env this_call_files) =
       [Info ''Building graph nodes...'', Info ''Building graph edges...'',
        Info ''Graph built with 3 nodes and 2 edges.'']"
  by code_simp

subsection \<open>Which edges a step writes\<close>


lemma edge_at_other [simp]: "x \<noteq> u \<Longrightarrow> edge_at (add_edge G u v a) x y = edge_at G x y"
  by (simp add: edge_at_add_edge)

lemma edge_at_log [simp]: "edge_at (st_graph (log_debug m st)) x y = edge_at (st_graph st) x y"
  by simp

















section \<open>The type of each containment edge\<close>

lemma hang_inv_empty: "hang_inv fs empty_graph"
  by (simp add: hang_inv_def contains_edge_def edge_type_def edge_attr_def empty_graph_def)

lemma hang_inv_add_node: "hang_inv fs G \<Longrightarrow> hang_inv fs (add_node G n a)"
  by (simp add: hang_inv_def)

lemma hang_inv_plain_edge:
  assumes "hang_inv fs G" and "t \<noteq> ''CONTAINS''" and "t \<noteq> ''CONTAINS_FUNC''" and "t \<noteq> ''HAS_METHOD''"
  shows "hang_inv fs (add_edge G u v [(''type'', Some t), (''label'', l)])"
  using assms by (auto simp: hang_inv_def contains_edge_add2)

lemma hang_inv_entity:
  assumes fd: "fd \<in> set fs" and ee: "ee \<in> set (fr_entities (snd fd))" and inv: "hang_inv fs G"
  shows "hang_inv fs (add_entity (fst fd) ee G)"
proof -
  have "hangs fs (Some ''CONTAINS'') (fst fd) (fst ee)"
    using fd ee by (auto simp: hangs_def)
  with inv show ?thesis
    by (auto simp: hang_inv_def add_entity_def contains_edge_add1)
qed

lemma hang_inv_method:
  assumes wf: "wf_records fs" and fd: "fd \<in> set fs" and mm: "mm \<in> set (fr_methods (snd fd))"
    and present: "\<forall>e \<in> fst ` set (fr_entities (snd fd)). has_node G e"
    and inv: "hang_inv fs G"
  shows "hang_inv fs (add_method (fst fd) mm G)"
proof -
  let ?G1 = "add_node G (fst mm) (method_attrs (fst fd) (snd mm))"
  show ?thesis
  proof (cases "truthy (m_entity_id (snd mm)) \<and> has_node_opt ?G1 (m_entity_id (snd mm))")
    case True
    then obtain e where e: "m_entity_id (snd mm) = Some e"
      by (cases "m_entity_id (snd mm)") auto
    have form: "add_method (fst fd) mm G = add_edge ?G1 e (fst mm) [(''type'', Some ''HAS_METHOD'')]"
      using True e by (simp add: add_method_def Let_def)
    have "hangs fs (Some ''HAS_METHOD'') e (fst mm)"
      unfolding hangs_def
      by (rule bexI [OF _ fd], rule disjI2, rule bexI [OF _ mm]) (use e True in simp)
    with inv show ?thesis
      unfolding form by (auto simp: hang_inv_def contains_edge_add1)
  next
    case False
    have nt: "\<not> truthy (m_entity_id (snd mm))"
    proof
      assume t: "truthy (m_entity_id (snd mm))"
      then obtain e where e: "m_entity_id (snd mm) = Some e"
        by (cases "m_entity_id (snd mm)") auto
      from wf_method_entity [OF wf fd mm e] present have "has_node G e" by blast
      with False t e show False by (simp add: has_node_opt_def)
    qed
    have form: "add_method (fst fd) mm G
        = add_edge ?G1 (fst fd) (fst mm) [(''type'', Some ''CONTAINS_FUNC'')]"
      using False wf_file_id [OF wf fd] by (auto simp: add_method_def Let_def)
    have "hangs fs (Some ''CONTAINS_FUNC'') (fst fd) (fst mm)"
      unfolding hangs_def
      by (rule bexI [OF _ fd], rule disjI2, rule bexI [OF _ mm]) (use nt in simp)
    with inv show ?thesis
      unfolding form by (auto simp: hang_inv_def contains_edge_add1)
  qed
qed

lemma entity_present: "ee \<in> set es \<Longrightarrow> has_node (fold (add_entity f) es G) (fst ee)"
proof -
  have "\<forall>ee \<in> set es. has_node (fold (add_entity f) es G) (fst ee)"
    by (rule fold_prefix_inv [where P = "\<lambda>pre G. \<forall>ee \<in> set pre. has_node G (fst ee)"])
      (auto simp: add_entity_def)
  then show "ee \<in> set es \<Longrightarrow> has_node (fold (add_entity f) es G) (fst ee)" by blast
qed

lemma method_present: "mm \<in> set ms \<Longrightarrow> has_node (fold (add_method f) ms G) (fst mm)"
proof -
  have "\<forall>mm \<in> set ms. has_node (fold (add_method f) ms G) (fst mm)"
    by (rule fold_prefix_inv [where P = "\<lambda>pre G. \<forall>mm \<in> set pre. has_node G (fst mm)"])
      (auto simp: add_method_def Let_def split: option.splits)
  then show "mm \<in> set ms \<Longrightarrow> has_node (fold (add_method f) ms G) (fst mm)" by blast
qed

lemma hang_inv_add_file_nodes:
  assumes wf: "wf_records fs" and fd: "fd \<in> set fs" and inv: "hang_inv fs G"
  shows "hang_inv fs (add_file_nodes ev fd G)"
proof -
  let ?G0 = "add_node G (fst fd) (file_attrs ev (snd fd))"
  let ?G1 = "fold (add_entity (fst fd)) (fr_entities (snd fd)) ?G0"
  let ?P = "\<lambda>G. hang_inv fs G \<and> (\<forall>e \<in> fst ` set (fr_entities (snd fd)). has_node G e)"
  have 1: "hang_inv fs ?G1"
    by (rule fold_inv [where P = "hang_inv fs"])
      (auto intro: hang_inv_add_node inv hang_inv_entity [OF fd])
  have 2: "?P ?G1"
    using 1 entity_present [of _ "fr_entities (snd fd)" "fst fd" ?G0] by auto
  have "?P (fold (add_method (fst fd)) (fr_methods (snd fd)) ?G1)"
    by (rule fold_inv [where P = ?P, OF 2])
      (auto intro: hang_inv_method [OF wf fd] has_node_add_method)
  then show ?thesis by (simp add: add_file_nodes_def)
qed

lemma hang_inv_node_phase:
  assumes wf: "wf_records fs"
  shows "hang_inv fs (node_phase ev fs)"
  unfolding node_phase_def
  by (rule fold_inv [where P = "hang_inv fs", OF hang_inv_empty])
    (auto intro: hang_inv_add_file_nodes [OF wf])

lemma hang_inv_process_import:
  assumes "process_import ev ids fid d imp st = Inr st'" and "hang_inv fs (st_graph st)"
  shows "hang_inv fs (st_graph st')"
proof (cases "i_is_external imp")
  case True
  from process_import_external(1) [OF assms(1) True] assms(2) show ?thesis
    by (auto intro!: hang_inv_plain_edge hang_inv_add_node)
next
  case False
  from process_import_internal [OF assms(1) False] assms(2) show ?thesis
    by (auto intro!: hang_inv_plain_edge)
qed

lemma hang_inv_process_dep:
  "hang_inv fs (st_graph st) \<Longrightarrow> hang_inv fs (st_graph (process_dep fs' d ek dep st))"
  by (auto simp: process_dep_def Let_def intro!: hang_inv_plain_edge split: option.splits)

lemma hang_inv_process_deps:
  "hang_inv fs (st_graph st) \<Longrightarrow> hang_inv fs (st_graph (process_deps fs' d ed st))"
  unfolding process_deps_def
  by (auto intro!: fold_inv [where P = "\<lambda>t. hang_inv fs (st_graph t)"] hang_inv_process_dep)

lemma hang_inv_process_call:
  "hang_inv fs (st_graph st) \<Longrightarrow> hang_inv fs (st_graph (process_call fs' d mk ce c st))"
  by (auto simp: process_call_def Let_def intro!: hang_inv_plain_edge split: option.splits)

lemma hang_inv_process_calls:
  "hang_inv fs (st_graph st) \<Longrightarrow> hang_inv fs (st_graph (process_calls fs' d mc st))"
  unfolding process_calls_def
  by (auto intro!: fold_inv [where P = "\<lambda>t. hang_inv fs (st_graph t)"] hang_inv_process_call)

lemma hang_inv_add_file_edges:
  assumes step: "add_file_edges ev fs' fd st = Inr st'" and inv: "hang_inv fs (st_graph st)"
  shows "hang_inv fs (st_graph st')"
proof -
  let ?P = "\<lambda>t. hang_inv fs (st_graph t)"
  from step obtain st1
    where imps: "foldM (process_import ev (map fst fs') (fst fd) (snd fd)) (fr_imports (snd fd)) st
                   = Inr st1"
      and tail: "st' = fold (process_calls fs' (snd fd)) (fr_calls (snd fd))
                   (fold (process_deps fs' (snd fd)) (fr_dependencies (snd fd)) st1)"
    by (auto simp: add_file_edges_def split: sum.splits)
  have 1: "?P st1"
    by (rule foldM_inv [OF imps, where P = ?P, OF inv]) (rule hang_inv_process_import)
  have 2: "?P (fold (process_deps fs' (snd fd)) (fr_dependencies (snd fd)) st1)"
    by (rule fold_inv [where P = ?P, OF 1]) (rule hang_inv_process_deps)
  show ?thesis
    unfolding tail
    by (rule fold_inv [where P = ?P, OF 2]) (rule hang_inv_process_calls)
qed

lemma hang_inv_edge_phase:
  assumes wf: "wf_records fs" and run: "edge_phase ev fs = Inr st"
  shows "hang_inv fs (st_graph st)"
  by (rule foldM_inv [OF run [unfolded edge_phase_def], where P = "\<lambda>t. hang_inv fs (st_graph t)"])
    (auto intro: hang_inv_node_phase [OF wf] hang_inv_add_file_edges)

lemma owner_present_add_file_nodes:
  assumes "n \<in> set (owner_ids fd)"
  shows "has_node (add_file_nodes ev fd G) n"
proof -
  let ?G0 = "add_node G (fst fd) (file_attrs ev (snd fd))"
  let ?G1 = "fold (add_entity (fst fd)) (fr_entities (snd fd)) ?G0"
  have keep: "has_node ?G1 m \<Longrightarrow> has_node (fold (add_method (fst fd)) (fr_methods (snd fd)) ?G1) m"
    for m
    by (rule fold_inv [where P = "\<lambda>G. has_node G m"]) (auto intro: has_node_add_method)
  from assms consider "n = fst fd" | ee where "ee \<in> set (fr_entities (snd fd))" "n = fst ee"
    | mm where "mm \<in> set (fr_methods (snd fd))" "n = fst mm"
    by (auto simp: owner_ids_def)
  then show ?thesis
  proof cases
    case 1
    then show ?thesis by (simp add: has_node_add_file_nodes)
  next
    case 2
    then show ?thesis
      unfolding add_file_nodes_def using keep entity_present by blast
  next
    case 3
    then show ?thesis
      unfolding add_file_nodes_def using method_present by blast
  qed
qed

lemma ids_present_node_phase:
  assumes "fd \<in> set fs" and "n \<in> set (owner_ids fd)"
  shows "has_node (node_phase ev fs) n"
proof -
  have "\<forall>g \<in> set fs. \<forall>n \<in> set (owner_ids g). has_node (fold (add_file_nodes ev) fs empty_graph) n"
    by (rule fold_prefix_inv
          [where P = "\<lambda>pre G. \<forall>g \<in> set pre. \<forall>n \<in> set (owner_ids g). has_node G n"])
      (auto intro: has_node_add_file_nodes owner_present_add_file_nodes)
  with assms show ?thesis by (simp add: node_phase_def)
qed

lemma has_node_process_import:
  assumes "process_import ev ids fid d imp st = Inr st'" and "has_node (st_graph st) n"
  shows "has_node (st_graph st') n"
proof (cases "i_is_external imp")
  case True
  from process_import_external(1) [OF assms(1) True] assms(2) show ?thesis by auto
next
  case False
  from process_import_internal [OF assms(1) False] assms(2) show ?thesis by auto
qed

lemma has_node_process_deps:
  "has_node (st_graph st) n \<Longrightarrow> has_node (st_graph (process_deps fs d ed st)) n"
  unfolding process_deps_def
  by (auto intro!: fold_inv [where P = "\<lambda>t. has_node (st_graph t) n"]
      simp: process_dep_def Let_def split: option.splits)

lemma has_node_process_calls:
  "has_node (st_graph st) n \<Longrightarrow> has_node (st_graph (process_calls fs d mc st)) n"
  unfolding process_calls_def
  by (auto intro!: fold_inv [where P = "\<lambda>t. has_node (st_graph t) n"]
      simp: process_call_def Let_def split: option.splits)

lemma has_node_add_file_edges:
  assumes step: "add_file_edges ev fs fd st = Inr st'" and inv: "has_node (st_graph st) n"
  shows "has_node (st_graph st') n"
proof -
  let ?P = "\<lambda>t. has_node (st_graph t) n"
  from step obtain st1
    where imps: "foldM (process_import ev (map fst fs) (fst fd) (snd fd)) (fr_imports (snd fd)) st
                   = Inr st1"
      and tail: "st' = fold (process_calls fs (snd fd)) (fr_calls (snd fd))
                   (fold (process_deps fs (snd fd)) (fr_dependencies (snd fd)) st1)"
    by (auto simp: add_file_edges_def split: sum.splits)
  have 1: "?P st1"
    by (rule foldM_inv [OF imps, where P = ?P, OF inv]) (rule has_node_process_import)
  have 2: "?P (fold (process_deps fs (snd fd)) (fr_dependencies (snd fd)) st1)"
    by (rule fold_inv [where P = ?P, OF 1]) (rule has_node_process_deps)
  show ?thesis
    unfolding tail
    by (rule fold_inv [where P = ?P, OF 2]) (rule has_node_process_calls)
qed

lemma ids_present_edge_phase:
  assumes run: "edge_phase ev fs = Inr st" and fd: "fd \<in> set fs" and n: "n \<in> set (owner_ids fd)"
  shows "has_node (st_graph st) n"
  by (rule foldM_inv [OF run [unfolded edge_phase_def], where P = "\<lambda>t. has_node (st_graph t) n"])
    (auto intro: ids_present_node_phase [OF fd n] has_node_add_file_edges)

text \<open>The last edge of a path that does not end where it starts.\<close>

lemma reach_last_edge:
  assumes "reach G u v" and "u \<noteq> v"
  shows "\<exists>p. contains_edge G p v"
  using assms unfolding reach_def by (induction rule: rtranclp_induct) auto

lemma distinct_method_keys:
  assumes wf: "wf_records fs" and fd: "fd \<in> set fs"
  shows "distinct (map fst (fr_methods (snd fd)))"
  using owner_distinct [OF wf_distinct [OF wf] fd] by (simp add: owner_ids_def)

lemma hangs_entity:
  assumes wf: "wf_records fs" and fd: "fd \<in> set fs"
    and e: "e \<in> fst ` set (fr_entities (snd fd))" and h: "hangs fs t u e"
  shows "t = Some ''CONTAINS'' \<and> u = fst fd"
proof -
  have eo: "e \<in> set (owner_ids fd)" using e by (simp add: owner_ids_def)
  from h obtain g where g: "g \<in> set fs"
    and c: "(t = Some ''CONTAINS'' \<and> u = fst g \<and> e \<in> fst ` set (fr_entities (snd g)))
            \<or> e \<in> fst ` set (fr_methods (snd g))"
    by (auto simp: hangs_def)
  from c show ?thesis
  proof
    assume c1: "t = Some ''CONTAINS'' \<and> u = fst g \<and> e \<in> fst ` set (fr_entities (snd g))"
    then have "e \<in> set (owner_ids g)" by (simp add: owner_ids_def)
    from owner_unique [OF wf_distinct [OF wf] fd g eo this] c1 show ?thesis by simp
  next
    assume "e \<in> fst ` set (fr_methods (snd g))"
    with entity_not_method [OF wf fd g e] show ?thesis by blast
  qed
qed

lemma hangs_method:
  assumes wf: "wf_records fs" and fd: "fd \<in> set fs"
    and mm: "mm \<in> set (fr_methods (snd fd))" and h: "hangs fs t u (fst mm)"
  shows "(truthy (m_entity_id (snd mm)) \<and> t = Some ''HAS_METHOD'' \<and> m_entity_id (snd mm) = Some u)
       \<or> (\<not> truthy (m_entity_id (snd mm)) \<and> t = Some ''CONTAINS_FUNC'' \<and> u = fst fd)"
proof -
  have mo: "fst mm \<in> set (owner_ids fd)" using mm by (simp add: owner_ids_def)
  have mk: "fst mm \<in> fst ` set (fr_methods (snd fd))" using mm by simp
  from h obtain g where g: "g \<in> set fs"
    and c: "fst mm \<in> fst ` set (fr_entities (snd g))
            \<or> (\<exists>mm' \<in> set (fr_methods (snd g)). fst mm = fst mm' \<and>
                 ((t = Some ''HAS_METHOD'' \<and> truthy (m_entity_id (snd mm'))
                     \<and> m_entity_id (snd mm') = Some u)
                  \<or> (t = Some ''CONTAINS_FUNC'' \<and> \<not> truthy (m_entity_id (snd mm'))
                     \<and> u = fst g)))"
    by (auto simp: hangs_def)
  from c show ?thesis
  proof
    assume "fst mm \<in> fst ` set (fr_entities (snd g))"
    with entity_not_method [OF wf g fd this] mk show ?thesis by blast
  next
    assume "\<exists>mm' \<in> set (fr_methods (snd g)). fst mm = fst mm' \<and>
                 ((t = Some ''HAS_METHOD'' \<and> truthy (m_entity_id (snd mm'))
                     \<and> m_entity_id (snd mm') = Some u)
                  \<or> (t = Some ''CONTAINS_FUNC'' \<and> \<not> truthy (m_entity_id (snd mm'))
                     \<and> u = fst g))"
    then obtain mm' where mm': "mm' \<in> set (fr_methods (snd g))" and k: "fst mm = fst mm'"
      and d: "(t = Some ''HAS_METHOD'' \<and> truthy (m_entity_id (snd mm'))
                     \<and> m_entity_id (snd mm') = Some u)
                  \<or> (t = Some ''CONTAINS_FUNC'' \<and> \<not> truthy (m_entity_id (snd mm'))
                     \<and> u = fst g)"
      by blast
    from mm' k have "fst mm \<in> set (owner_ids g)" by (auto simp: owner_ids_def)
    from owner_unique [OF wf_distinct [OF wf] fd g mo this] have gfd: "g = fd" by simp
    from distinct_method_keys [OF wf fd] have "inj_on fst (set (fr_methods (snd fd)))"
      by (simp add: distinct_map)
    from inj_onD [OF this k mm] mm' gfd have "mm' = mm" by simp
    with d gfd show ?thesis by blast
  qed
qed


section \<open>What the statements of a file do to its imports\<close>

lemma ebind_InrE:
  assumes "ebind m f = Inr y"
  obtains x where "m = Inr x" and "f x = Inr y"
  using assms by (cases m) (simp_all add: ebind_def)

lemma ebind_keeps:
  assumes "ebind m f = Inr y" and "\<And>x. f x = Inr y \<Longrightarrow> P"
  shows P
  using assms by (cases m) (simp_all add: ebind_def)

lemma is_external_source_classified:
  assumes "is_external_source source source_root = Inr b"
  shows "\<exists>s. source = JStr s \<and>
     b = (\<not> (py_startswith s ''.'' \<or> py_startswith s ''/'' \<or> starts_with_root source_root s))"
proof (cases source)
  case (JStr s)
  with assms show ?thesis
    by (cases source_root)
      (auto simp: is_external_source_def ebind_def starts_with_root_def split: if_splits)
qed (use assms in \<open>simp_all add: is_external_source_def ebind_def\<close>)

lemma process_import_declaration_imports:
  assumes "process_import_declaration pe source_root node ex = Inr ex'"
  shows "x_imports ex' = x_imports ex
       \<or> (\<exists>i. x_imports ex' = x_imports ex @ [i] \<and> classified source_root i)"
  using assms unfolding process_import_declaration_def
  apply (elim ebind_InrE)
  apply (split if_splits)
   apply simp
  apply (elim ebind_InrE)
  apply (drule is_external_source_classified)
  apply (force simp: classified_def)
  done

lemma process_export_named_imports:
  "process_export_named pe node ex = Inr ex' \<Longrightarrow> x_imports ex' = x_imports ex"
  unfolding process_export_named_def
  by (elim ebind_keeps | split if_splits | force)+

lemma process_export_default_imports:
  "process_export_default pe node ex = Inr ex' \<Longrightarrow> x_imports ex' = x_imports ex"
  unfolding process_export_default_def Let_def
  by (elim ebind_keeps | split if_splits | force)+

lemma process_member_imports:
  "process_member pe file_id entity_id member ex = Inr ex' \<Longrightarrow> x_imports ex' = x_imports ex"
  unfolding process_member_def Let_def
  by (elim ebind_keeps | split if_splits | force)+

lemma process_declarator_imports:
  "process_declarator pe file_id node declaration ex = Inr ex' \<Longrightarrow> x_imports ex' = x_imports ex"
  unfolding process_declarator_def Let_def
  by (elim ebind_keeps | split if_splits | force)+

lemma process_class_imports:
  assumes "process_class pe file_id entity_data node ex = Inr ex'"
  shows "x_imports ex' = x_imports ex"
proof -
  have "\<exists>members ex0.
          foldM (process_member pe file_id (xn_entity_id entity_data)) members ex0 = Inr ex'
          \<and> x_imports ex0 = x_imports ex"
    using assms unfolding process_class_def
    apply (elim ebind_keeps)
    apply (rule exI, rule exI, rule conjI, assumption)
    apply simp
    done
  then obtain members ex0 where
    f: "foldM (process_member pe file_id (xn_entity_id entity_data)) members ex0 = Inr ex'"
    and e: "x_imports ex0 = x_imports ex"
    by blast
  show ?thesis
    by (rule foldM_inv [OF f, of "\<lambda>t. x_imports t = x_imports ex"])
      (simp_all add: e process_member_imports)
qed

lemma process_entity_imports:
  "process_entity pe file_id statement_type node ex = Inr ex' \<Longrightarrow> x_imports ex' = x_imports ex"
  unfolding process_entity_def Let_def
  by (elim ebind_keeps | split if_splits | (drule process_class_imports, simp) | force)+

lemma process_declarators_imports:
  assumes "foldM (process_declarator pe file_id node) decls ex = Inr ex'"
  shows "x_imports ex' = x_imports ex"
  by (rule foldM_inv [OF assms, of "\<lambda>t. x_imports t = x_imports ex"])
    (simp_all add: process_declarator_imports)

lemma ebind_Inr: "ebind (Inr x) f = f x"
  by (simp add: ebind_def)

lemma process_statement_imports:
  assumes "process_statement pe file_id source_root node ex = Inr ex'"
  shows "x_imports ex' = x_imports ex
       \<or> (\<exists>i. x_imports ex' = x_imports ex @ [i] \<and> classified source_root i)"
proof -
  have "\<exists>t. py_get node ''type'' JNull = Inr t"
    using assms unfolding process_statement_def by (blast elim: ebind_InrE)
  then obtain t where t: "py_get node ''type'' JNull = Inr t" by blast
  note d = assms [unfolded process_statement_def t ebind_Inr]
  consider (imp) "t = JStr ''ImportDeclaration''" | (named) "t = JStr ''ExportNamedDeclaration''"
    | (dflt) "t = JStr ''ExportDefaultDeclaration''" | (cls) "t = JStr ''ClassDeclaration''"
    | (ifc) "t = JStr ''TSInterfaceDeclaration''" | (fn) "t = JStr ''FunctionDeclaration''"
    | (var) "t = JStr ''VariableDeclaration''"
    | (other) "t \<noteq> JStr ''ImportDeclaration''" "t \<noteq> JStr ''ExportNamedDeclaration''"
        "t \<noteq> JStr ''ExportDefaultDeclaration''" "t \<noteq> JStr ''ClassDeclaration''"
        "t \<noteq> JStr ''TSInterfaceDeclaration''" "t \<noteq> JStr ''FunctionDeclaration''"
        "t \<noteq> JStr ''VariableDeclaration''"
    by blast
  then show ?thesis
  proof cases
    case imp
    with d have "process_import_declaration pe source_root node ex = Inr ex'" by simp
    then show ?thesis by (rule process_import_declaration_imports)
  next
    case named
    with d have "process_export_named pe node ex = Inr ex'" by simp
    then show ?thesis by (simp add: process_export_named_imports)
  next
    case dflt
    with d have "process_export_default pe node ex = Inr ex'" by simp
    then show ?thesis by (simp add: process_export_default_imports)
  next
    case cls
    with d have "process_entity pe file_id ''ClassDeclaration'' node ex = Inr ex'" by simp
    then show ?thesis by (simp add: process_entity_imports)
  next
    case ifc
    with d have "process_entity pe file_id ''TSInterfaceDeclaration'' node ex = Inr ex'" by simp
    then show ?thesis by (simp add: process_entity_imports)
  next
    case fn
    with d have "process_entity pe file_id ''FunctionDeclaration'' node ex = Inr ex'" by simp
    then show ?thesis by (simp add: process_entity_imports)
  next
    case var
    with d have "ebind (py_get node ''declarations'' (JArr [])) (\<lambda>declarations.
            ebind (py_iter declarations) (\<lambda>decls.
            foldM (process_declarator pe file_id node) decls ex)) = Inr ex'" by simp
    then have "\<exists>decls. foldM (process_declarator pe file_id node) decls ex = Inr ex'"
      by (blast elim: ebind_InrE)
    then obtain decls where "foldM (process_declarator pe file_id node) decls ex = Inr ex'"
      by blast
    then show ?thesis by (simp add: process_declarators_imports)
  next
    case other
    with d have "ex' = ex" by simp
    then show ?thesis by simp
  qed
qed


lemma extracted_imports_classified:
  assumes run: "extract_features_from_ast pe ast_data file_path_str config = Inr (Some ex, lg)"
    and root: "py_get config ''source_code_root_prefix'' (JStr ''src/'') = Inr source_root"
  shows "\<forall>i\<in>set (x_imports ex). classified source_root i"
proof -
  let ?rel = "case relative_to_cwd pe file_path_str of None \<Rightarrow> file_path_str | Some r \<Rightarrow> r"
  from run have ok: "\<not> (\<not> py_truthy ast_data \<or> \<not> is_dict ast_data)"
    by (cases "\<not> py_truthy ast_data \<or> \<not> is_dict ast_data")
      (simp_all add: extract_features_from_ast_def)
  note d = run [unfolded extract_features_from_ast_def Let_def root ebind_Inr, simplified ok if_False]
  have "\<exists>body. ex = empty_extracted ?rel
      \<or> (\<exists>statements. foldM (process_statement pe ?rel source_root) statements
             (empty_extracted ?rel) = Inr ex)"
    using d
    apply (elim ebind_InrE)
    apply (split if_splits)
     apply simp
    apply (elim ebind_InrE)
    apply simp
    apply blast
    done
  then have "ex = empty_extracted ?rel
      \<or> (\<exists>statements. foldM (process_statement pe ?rel source_root) statements
             (empty_extracted ?rel) = Inr ex)"
    by simp
  then show ?thesis
  proof
    assume "ex = empty_extracted ?rel"
    then show ?thesis by (simp add: empty_extracted_def)
  next
    assume "\<exists>statements. foldM (process_statement pe ?rel source_root) statements
             (empty_extracted ?rel) = Inr ex"
    then obtain statements where loop:
      "foldM (process_statement pe ?rel source_root) statements (empty_extracted ?rel) = Inr ex"
      by blast
    show ?thesis
    proof (rule foldM_inv [OF loop, of "\<lambda>t. \<forall>i\<in>set (x_imports t). classified source_root i"])
      show "\<forall>i\<in>set (x_imports (empty_extracted ?rel)). classified source_root i"
        by (simp add: empty_extracted_def)
    next
      fix x t t'
      assume "\<forall>i\<in>set (x_imports t). classified source_root i"
        and "process_statement pe ?rel source_root x t = Inr t'"
      then show "\<forall>i\<in>set (x_imports t'). classified source_root i"
        using process_statement_imports [of pe ?rel source_root x t t'] by auto
    qed
  qed
qed


section \<open>The tree after the walk of \<open>extract_calls\<close>\<close>






section \<open>What a run reads of the path environment\<close>








section \<open>\<open>get_type_annotation_str\<close> on annotation nodes\<close>

lemma shaped_lookup:
  "shaped_fields r kvs \<Longrightarrow> map_of kvs k = Some v
     \<Longrightarrow> field_shape r k v \<and> shaped (child_role r k) v"
  by (induction kvs) (auto split: if_splits)

lemma get_shaped:
  assumes "shaped r x" and "py_get x k d = Inr v"
  shows "v = d \<or> (field_shape r k v \<and> shaped (child_role r k) v)"
proof (cases x)
  case (JObj kvs)
  with assms show ?thesis
    by (cases "map_of kvs k") (auto dest: shaped_lookup)
qed (use assms in simp_all)

lemma get_total: "is_dict x \<Longrightarrow> \<exists>v. py_get x k d = Inr v"
  by (cases x) simp_all

lemma string_or_none_cases: "string_or_none v \<Longrightarrow> \<not> py_truthy v \<or> (\<exists>s. v = JStr s)"
  by (cases v) auto

lemma id_name_total:
  assumes "is_dict node" and "shaped Name node"
  shows "\<exists>r. id_name node = Inr r \<and> string_or_none r"
proof -
  from get_total [OF assms(1)] obtain i where i: "py_get node ''id'' (JObj []) = Inr i" by blast
  from get_shaped [OF assms(2) i] have di: "is_dict i" and si: "shaped NameCarrier i"
    by auto
  from get_total [OF di] obtain v where v: "py_get i ''name'' JNull = Inr v" by blast
  from get_shaped [OF si v] have "string_or_none v" by auto
  with i v show ?thesis by (simp add: id_name_def ebind_def)
qed

lemma name_total:
  "node_or_none n \<Longrightarrow> shaped Name n \<Longrightarrow> \<exists>r. get_node_name pe n = Inr r \<and> string_or_none r"
proof (induction pe n rule: get_node_name.induct)
  case (1 pe node)
  show ?case
  proof (cases "py_truthy node")
    case False
    then show ?thesis by (simp add: get_node_name.simps)
  next
    case True
    with "1.prems"(1) have d: "is_dict node" by (simp add: node_or_none_def)
    note sh = "1.prems"(2)
    from get_total [OF d] obtain tag where tag: "py_get node ''type'' JNull = Inr tag" by blast
    have sub: "node_or_none v \<and> shaped Name v"
      if "py_get node k JNull = Inr v" "k = ''object'' \<or> k = ''property'' \<or> k = ''key''" for k v
      using get_shaped [OF sh that(1)] that(2) by (auto simp: node_or_none_def)
    define is_ident where "is_ident = (tag = JStr ''Identifier'' \<or> tag = JStr ''PrivateName'')"
    define is_idn where "is_idn = (tag = JStr ''ClassDeclaration''
        \<or> tag = JStr ''TSInterfaceDeclaration'' \<or> tag = JStr ''FunctionDeclaration''
        \<or> tag = JStr ''VariableDeclarator'')"
    define is_meth where "is_meth = (tag = JStr ''MethodDefinition'')"
    define is_memb where "is_memb = (tag = JStr ''MemberExpression'')"
    define is_lit where "is_lit = (tag = JStr ''Literal'')"
    consider (ident) is_ident | (idn) "\<not> is_ident" is_idn | (meth) is_meth | (memb) is_memb
      | (lit) is_lit
      | (other) "\<not> is_ident" "\<not> is_idn" "\<not> is_meth" "\<not> is_memb" "\<not> is_lit"
      by blast
    then show ?thesis
    proof cases
      case ident0: ident
      note ident = ident0 [unfolded is_ident_def is_idn_def is_meth_def is_memb_def is_lit_def de_Morgan_disj]
      from get_total [OF d] obtain v where v: "py_get node ''name'' JNull = Inr v" by blast
      from get_shaped [OF sh v] have "string_or_none v" by auto
      with True tag ident v show ?thesis by (simp add: get_node_name.simps)
    next
      case idn0: idn
      note idn = idn0 [unfolded is_ident_def is_idn_def is_meth_def is_memb_def is_lit_def de_Morgan_disj]
      from id_name_total [OF d sh] True tag idn show ?thesis
        by (auto simp: get_node_name.simps)
    next
      case meth0: meth
      note meth = meth0 [unfolded is_ident_def is_idn_def is_meth_def is_memb_def is_lit_def de_Morgan_disj]
      from get_total [OF d] obtain key where key: "py_get node ''key'' JNull = Inr key" by blast
      from sub [OF key] have "node_or_none key" "shaped Name key" by simp_all
      from "1.IH"(1) [OF _ tag _ _ meth key this] True meth
      obtain r where "get_node_name pe key = Inr r" "string_or_none r" by auto
      with True tag meth key show ?thesis by (simp add: get_node_name.simps)
    next
      case memb0: memb
      note memb = memb0 [unfolded is_ident_def is_idn_def is_meth_def is_memb_def is_lit_def de_Morgan_disj]
      from get_total [OF d] obtain obj where obj: "py_get node ''object'' JNull = Inr obj" by blast
      from get_total [OF d] obtain member where member: "py_get node ''property'' JNull = Inr member"
        by blast
      from sub [OF obj] have "node_or_none obj" "shaped Name obj" by simp_all
      from "1.IH"(2) [OF _ tag _ _ _ _ _ _ memb obj this] True memb
      obtain ro where ro: "get_node_name pe obj = Inr ro" by auto
      from sub [OF member] have "node_or_none member" "shaped Name member" by simp_all
      from "1.IH"(3) [OF _ tag _ _ _ _ _ _ memb obj ro member this] True memb
      obtain rp where rp: "get_node_name pe member = Inr rp" "string_or_none rp" by auto
      from True tag memb obj member ro rp show ?thesis by (simp add: get_node_name.simps)
    next
      case lit0: lit
      note lit = lit0 [unfolded is_ident_def is_idn_def is_meth_def is_memb_def is_lit_def de_Morgan_disj]
      from get_total [OF d] obtain v where v: "py_get node ''value'' JNull = Inr v" by blast
      with True tag lit show ?thesis by (simp add: get_node_name.simps)
    next
      case other0: other
      note other = other0 [unfolded is_ident_def is_idn_def is_meth_def is_memb_def is_lit_def de_Morgan_disj]
      with True tag show ?thesis by (simp add: get_node_name.simps)
    qed
  qed
qed


section \<open>Containment\<close>

lemma shadowed_run:
  "build_graph flat_env shadowed_files =
     Inr (built_graph (build_graph flat_env shadowed_files),
          built_log (build_graph flat_env shadowed_files))"
  by code_simp

text \<open>
  C8, as the specification words it, fails on \<open>clash_files\<close>, where the file \<open>x.json\<close>
  imports an external source that is also called \<open>x.json\<close>.  Line 93 adds the node of the
  source, which is the node of the file, and sets its type to \<open>External\<close>.  The graph
  then has the two nodes \<open>x.json\<close> and \<open>x.json::A\<close> and no node of type \<open>File\<close>, so the
  class \<open>x.json::A\<close>, which is not of type \<open>External\<close>, is reached from no file node.
\<close>

theorem source_named_like_file_retypes_it:
  "\<not> wf_records clash_files
   \<and> map fst (g_node (built_graph (build_graph flat_env clash_files))) = [''x.json'', ''x.json::A'']
   \<and> node_type (built_graph (build_graph flat_env clash_files)) ''x.json'' = Some ''External''
   \<and> node_type (built_graph (build_graph flat_env clash_files)) ''x.json::A'' = Some ''Class''
   \<and> file_nodes (built_graph (build_graph flat_env clash_files)) = []"
  by code_simp

text \<open>
  C8, as the source has it.  The ids of the input are well formed (\<open>wf_records\<close>: the ids
  of files, entities and methods are pairwise different and none is an external import
  source, no file id is empty, dependencies and calls are stored under entities and
  methods of their file, and the \<open>entity_id\<close> of a method is an entity of its file).  Then
  in the graph of a finished run

  \<^item> every node whose type is not \<open>External\<close> is reached from exactly one node of type
    \<open>File\<close> by a path of \<open>CONTAINS\<close>, \<open>CONTAINS_FUNC\<close> and \<open>HAS_METHOD\<close> edges (a file node
    from itself, by the empty path);

  \<^item> every file, entity and method of the input is a node;

  \<^item> the edge from a file to each of its entities has type \<open>CONTAINS\<close>;

  \<^item> a method whose \<open>entity_id\<close> is set (and not empty) has the edge of type
    \<open>HAS_METHOD\<close> from that entity, and a method with no \<open>entity_id\<close> has the edge of type
    \<open>CONTAINS_FUNC\<close> from its file.
\<close>

theorem every_node_in_exactly_one_file:
  assumes wf: "wf_records fs" and run: "build_graph ev fs = Inr (G, lg)"
  shows "(\<forall>n. has_node G n \<and> node_type G n \<noteq> Some ''External'' \<longrightarrow>
            (\<exists>!f. node_type G f = Some ''File'' \<and> reach G f n))
         \<and> (\<forall>fd \<in> set fs.
              (\<forall>n \<in> set (owner_ids fd). has_node G n)
              \<and> (\<forall>ee \<in> set (fr_entities (snd fd)).
                    edge_type G (fst fd) (fst ee) = Some ''CONTAINS'')
              \<and> (\<forall>mm \<in> set (fr_methods (snd fd)).
                    case m_entity_id (snd mm) of
                      None \<Rightarrow> edge_type G (fst fd) (fst mm) = Some ''CONTAINS_FUNC''
                    | Some e \<Rightarrow>
                        if e = [] then edge_type G (fst fd) (fst mm) = Some ''CONTAINS_FUNC''
                        else edge_type G e (fst mm) = Some ''HAS_METHOD''))"
proof -
  from run obtain st where st: "edge_phase ev fs = Inr st" and G: "G = st_graph st"
    by (auto simp: build_graph_def split: sum.splits)
  from edge_inv_edge_phase [OF wf st] G have inv: "graph_inv fs G"
    by (simp add: edge_inv_def)
  from hang_inv_edge_phase [OF wf st] G have hang: "hang_inv fs G" by simp
  have present: "has_node G n" if "fd \<in> set fs" "n \<in> set (owner_ids fd)" for fd n
    using ids_present_edge_phase [OF st that] G by simp
  have unique: "\<exists>!f. node_type G f = Some ''File'' \<and> reach G f n"
    if node: "has_node G n" and nx: "node_type G n \<noteq> Some ''External''" for n
  proof -
    from typed_owner [OF graph_inv_typed [OF inv node] nx] obtain g
      where g: "g \<in> set fs" and ng: "n \<in> set (owner_ids g)" by blast
    have fg: "has_node G (fst g) \<and> reach G (fst g) n"
    proof (cases "n = fst g")
      case True
      with node show ?thesis by simp
    next
      case False
      with ng have "n \<in> set (tl (owner_ids g))" by (simp add: owner_ids_def)
      from graph_inv_reach [OF inv g this node] show ?thesis .
    qed
    then have "node_type G (fst g) = Some ''File''"
      using typed_of_file [OF wf g graph_inv_typed [OF inv]] by blast
    with fg have ex: "node_type G (fst g) = Some ''File'' \<and> reach G (fst g) n" by simp
    show ?thesis
    proof (rule ex1I [of _ "fst g"])
      show "node_type G (fst g) = Some ''File'' \<and> reach G (fst g) n" by (rule ex)
    next
      fix f assume "node_type G f = Some ''File'' \<and> reach G f n"
      then show "f = fst g"
        using file_reach_owner [OF wf inv _ _ g ng] by blast
    qed
  qed
  have parent: "\<exists>p. contains_edge G p n \<and> hangs fs (edge_type G p n) p n"
    if fd: "fd \<in> set fs" and n: "n \<in> set (tl (owner_ids fd))" for fd n
  proof -
    from n have "n \<in> set (owner_ids fd)" by (simp add: owner_ids_def)
    from present [OF fd this] have node: "has_node G n" .
    from graph_inv_reach [OF inv fd n node] have r: "reach G (fst fd) n" by simp
    from file_not_member [OF wf fd fd] n have "fst fd \<noteq> n" by blast
    from reach_last_edge [OF r this] obtain p where "contains_edge G p n" by blast
    with hang show ?thesis by (auto simp: hang_inv_def)
  qed
  have entity_edge: "edge_type G (fst fd) (fst ee) = Some ''CONTAINS''"
    if fd: "fd \<in> set fs" and ee: "ee \<in> set (fr_entities (snd fd))" for fd ee
  proof -
    from ee have k: "fst ee \<in> fst ` set (fr_entities (snd fd))" by simp
    then have "fst ee \<in> set (tl (owner_ids fd))" by (simp add: tl_owner)
    from parent [OF fd this] obtain p where "hangs fs (edge_type G p (fst ee)) p (fst ee)"
      by blast
    from hangs_entity [OF wf fd k this] show ?thesis by blast
  qed
  have method_edge: "case m_entity_id (snd mm) of
                  None \<Rightarrow> edge_type G (fst fd) (fst mm) = Some ''CONTAINS_FUNC''
                | Some e \<Rightarrow>
                    if e = [] then edge_type G (fst fd) (fst mm) = Some ''CONTAINS_FUNC''
                    else edge_type G e (fst mm) = Some ''HAS_METHOD''"
    if fd: "fd \<in> set fs" and mm: "mm \<in> set (fr_methods (snd fd))" for fd mm
  proof -
    from mm have "fst mm \<in> fst ` set (fr_methods (snd fd))" by simp
    then have "fst mm \<in> set (tl (owner_ids fd))" by (simp add: tl_owner)
    from parent [OF fd this] obtain p where "hangs fs (edge_type G p (fst mm)) p (fst mm)"
      by blast
    from hangs_method [OF wf fd mm this] show ?thesis
      by (cases "m_entity_id (snd mm)") auto
  qed
  from unique present entity_edge method_edge show ?thesis by blast
qed

theorem every_node_in_exactly_one_file_witness:
  "wf_records shadowed_files
   \<and> has_node (built_graph (build_graph flat_env shadowed_files)) ''b.ts::A::useB''
   \<and> node_type (built_graph (build_graph flat_env shadowed_files)) ''b.ts::A::useB''
       \<noteq> Some ''External''
   \<and> (\<exists>!f. node_type (built_graph (build_graph flat_env shadowed_files)) f = Some ''File''
            \<and> reach (built_graph (build_graph flat_env shadowed_files)) f ''b.ts::A::useB'')
   \<and> edge_type (built_graph (build_graph flat_env shadowed_files)) ''b.ts'' ''b.ts::A''
       = Some ''CONTAINS''
   \<and> edge_type (built_graph (build_graph flat_env shadowed_files)) ''b.ts::A'' ''b.ts::A::useB''
       = Some ''HAS_METHOD''"
proof -
  let ?G = "built_graph (build_graph flat_env shadowed_files)"
  have wf: "wf_records shadowed_files" by code_simp
  have n: "has_node ?G ''b.ts::A::useB''"
    by code_simp
  have t: "node_type ?G ''b.ts::A::useB'' \<noteq> Some ''External''"
    by code_simp
  have b: "(''b.ts'', shadowed_b) \<in> set shadowed_files"
    by (simp add: shadowed_b_def shadowed_files_def)
  have e: "(''b.ts::A'', \<lparr>e_name = ''A'', e_kind = Class, e_description = None\<rparr>)
      \<in> set (fr_entities shadowed_b)"
    by (simp add: shadowed_b_def shadowed_files_def)
  have m: "(''b.ts::A::useB'', \<lparr>m_name = ''useB'', m_kind = ''method'',
        m_entity_id = Some ''b.ts::A'', m_summary = None\<rparr>) \<in> set (fr_methods shadowed_b)"
    by (simp add: shadowed_b_def shadowed_files_def)
  note all = every_node_in_exactly_one_file [OF wf shadowed_run]
  from all n t have u: "\<exists>!f. node_type ?G f = Some ''File'' \<and> reach ?G f ''b.ts::A::useB''"
    by blast
  note at_b = all [THEN conjunct2, THEN bspec, OF b, unfolded fst_conv snd_conv]
  from at_b [THEN conjunct2, THEN conjunct1, THEN bspec, OF e]
  have c: "edge_type ?G ''b.ts'' ''b.ts::A'' = Some ''CONTAINS''" by simp
  from at_b [THEN conjunct2, THEN conjunct2, THEN bspec, OF m]
  have h: "edge_type ?G ''b.ts::A'' ''b.ts::A::useB'' = Some ''HAS_METHOD''" by simp
  from wf n t u c h show ?thesis by blast
qed

section \<open>External import nodes\<close>





section \<open>Default imports\<close>

lemma default_import_file:
  "extract_features_from_ast plain_env default_import_tree ''a.json'' (JObj []) =
     Inr (Some ((empty_extracted ''a.json'')
            \<lparr>x_imports := [\<lparr>xi_source = ''react'', xi_specifiers = [JStr ''React''],
                            xi_is_external = True\<rparr>]\<rparr>), [])"
  by code_simp

text \<open>
  C4 fails on every default import the parser emits.  For the statement
  \<open>import n from 's'\<close> the loop body appends an import whose specifier list is \<open>[n]\<close>: the
  local name \<open>n\<close> is already in the list that line 285 collects, so the guard
  \<open>default_specifier not in specifiers\<close> of line 288 is false and the marker \<open>default(n)\<close>
  is not appended.  The marker would only be appended if \<open>n == n\<close> were false.  With
  \<open>n\<close> and \<open>s\<close> set to \<open>React\<close> and \<open>react\<close> this is \<open>import React from 'react'\<close>, whose
  specifier list is \<open>['React']\<close>, the list of \<open>import { React } from 'react'\<close>.
\<close>

theorem default_import_is_not_marked:
  "process_statement pe file_id (JStr r) (import_declaration s [default_specifier n]) ex =
     Inr (if s = [] then ex
          else ex\<lparr>x_imports := x_imports ex @
                 [\<lparr>xi_source = s,
                   xi_specifiers =
                     (if n \<noteq> [] \<and> \<not> py_equal pe (JStr n) (JStr n)
                      then [JStr n, JStr (''default('' @ n @ '')'')] else [JStr n]),
                   xi_is_external =
                     (\<not> (py_startswith s ''.'' \<or> py_startswith s ''/'' \<or> py_startswith s r))\<rparr>]\<rparr>)"
  by (simp add: process_statement_def process_import_declaration_def import_declaration_def
      default_specifier_def ident_node_def ebind_def is_external_source_def
      specifier_name_def get_node_name.simps)

lemma named_import_same_specifiers:
  "process_statement plain_env file_id (JStr r) (import_declaration s [named_specifier n]) ex =
     process_statement plain_env file_id (JStr r) (import_declaration s [default_specifier n]) ex"
  by (simp add: process_statement_def process_import_declaration_def import_declaration_def
      default_specifier_def named_specifier_def ident_node_def ebind_def is_external_source_def
      specifier_name_def get_node_name.simps plain_env_def)

section \<open>Inputs without a body\<close>




section \<open>Classification of imports\<close>

lemma mixed_imports_run:
  "extract_features_from_ast plain_env mixed_imports_tree ''a.json'' (JObj []) =
     Inr (Some (extracted_record
                  (extract_features_from_ast plain_env mixed_imports_tree ''a.json'' (JObj []))),
          [])"
  by code_simp

text \<open>
  C7.  In the record of every finished extraction, an import is internal (\<open>is_external\<close>
  is false) if and only if its source starts with a dot, with a slash, or with the
  configured source-root prefix (the value of \<open>source_code_root_prefix\<close>, or \<open>src/\<close> when
  the configuration has none; a configured value that is not a string is no prefix).
  Every other import is external.
\<close>

theorem import_classification:
  assumes run: "extract_features_from_ast pe ast_data file_path_str config = Inr (Some ex, lg)"
    and root: "py_get config ''source_code_root_prefix'' (JStr ''src/'') = Inr source_root"
    and i: "i \<in> set (x_imports ex)"
  shows "(\<not> xi_is_external i) =
           (py_startswith (xi_source i) ''.'' \<or> py_startswith (xi_source i) ''/''
            \<or> starts_with_root source_root (xi_source i))"
  using extracted_imports_classified [OF run root] i by (auto simp: classified_def)

theorem import_classification_witness:
  "x_imports (extracted_record
       (extract_features_from_ast plain_env mixed_imports_tree ''a.json'' (JObj []))) =
     [\<lparr>xi_source = ''./x'', xi_specifiers = [JStr ''x''], xi_is_external = False\<rparr>,
      \<lparr>xi_source = ''src/app'', xi_specifiers = [JStr ''app''], xi_is_external = False\<rparr>,
      \<lparr>xi_source = ''lodash'', xi_specifiers = [JStr ''map''], xi_is_external = True\<rparr>]
   \<and> py_get (JObj []) ''source_code_root_prefix'' (JStr ''src/'') = Inr (JStr ''src/'')
   \<and> (\<not> xi_is_external
            \<lparr>xi_source = ''src/app'', xi_specifiers = [JStr ''app''], xi_is_external = False\<rparr>) =
       (py_startswith ''src/app'' ''.'' \<or> py_startswith ''src/app'' ''/''
        \<or> starts_with_root (JStr ''src/'') ''src/app'')
   \<and> (\<not> xi_is_external
            \<lparr>xi_source = ''lodash'', xi_specifiers = [JStr ''map''], xi_is_external = True\<rparr>) =
       (py_startswith ''lodash'' ''.'' \<or> py_startswith ''lodash'' ''/''
        \<or> starts_with_root (JStr ''src/'') ''lodash'')"
proof -
  let ?ex = "extracted_record
       (extract_features_from_ast plain_env mixed_imports_tree ''a.json'' (JObj []))"
  let ?app = "\<lparr>xi_source = ''src/app'', xi_specifiers = [JStr ''app''], xi_is_external = False\<rparr>"
  let ?lodash = "\<lparr>xi_source = ''lodash'', xi_specifiers = [JStr ''map''], xi_is_external = True\<rparr>"
  have listed: "x_imports ?ex =
     [\<lparr>xi_source = ''./x'', xi_specifiers = [JStr ''x''], xi_is_external = False\<rparr>, ?app, ?lodash]"
    by code_simp
  have root: "py_get (JObj []) ''source_code_root_prefix'' (JStr ''src/'') = Inr (JStr ''src/'')"
    by simp
  have a: "?app \<in> set (x_imports ?ex)" and l: "?lodash \<in> set (x_imports ?ex)"
    unfolding listed by simp_all
  from import_classification [OF mixed_imports_run root a]
    import_classification [OF mixed_imports_run root l] listed root
  show ?thesis by simp
qed

section \<open>The walk of \<open>extract_calls\<close> and the tree\<close>





section \<open>What the graph is a function of\<close>




end
